theory Spec2Isabelle
  imports Complex_Main
begin

section \<open>The expression rewriter: \<open>rewrite_implies\<close>\<close>

text \<open>
  The source (\<^verbatim>\<open>notebooks/utils/_utils.py\<close>, lines 38 to 50):
  \<^verbatim>\<open>
  def rewrite_implies(expr: str) -> str:
      pattern = r"(.+?)\s+implies\s+(.+)"
      while re.search(pattern, expr):
          expr = re.sub(pattern, r"implies(\1, \2)", expr, count=1)
      return expr
  \<close>
  A Python string is modelled as a \<open>string\<close>: the model covers the texts whose code
  points are below 256. The regular expression is matched the way Python's backtracking
  engine matches it: one function for each piece of the pattern, each taking the
  matcher of the rest of the pattern as its continuation and trying its alternatives in
  the engine's order.
\<close>

subsection \<open>The character classes\<close>

text \<open>
  \<^verbatim>\<open>\s\<close> on a text pattern is Unicode white space; below 256 these are the code
  points 9 to 13, 28 to 32, 133 and 160. The dot matches every character but the line
  feed (the pattern is compiled without flags).
\<close>

definition is_space :: "char \<Rightarrow> bool" where
  "is_space c = (of_char c \<in> set [9, 10, 11, 12, 13, 28, 29, 30, 31, 32, 133, 160 :: nat])"

definition is_dot :: "char \<Rightarrow> bool" where
  "is_dot c = (c \<noteq> CHR 0x0A)"

text \<open>
  The characters of a name: an ASCII letter or an underscore first, then letters,
  digits and underscores.
\<close>

definition is_ident_start :: "char \<Rightarrow> bool" where
  "is_ident_start c =
     (let n = (of_char c :: nat) in (65 \<le> n \<and> n \<le> 90) \<or> (97 \<le> n \<and> n \<le> 122) \<or> n = 95)"

definition is_digit :: "char \<Rightarrow> bool" where
  "is_digit c = (let n = (of_char c :: nat) in 48 \<le> n \<and> n \<le> 57)"

definition is_ident_char :: "char \<Rightarrow> bool" where
  "is_ident_char c = (is_ident_start c \<or> is_digit c)"

subsection \<open>The pieces of the pattern\<close>

text \<open>
  \<^verbatim>\<open>\s+\<close>, greedy: the engine first takes the whole run of white space, then gives
  characters back one at a time, down to one character, until the rest of the pattern
  matches.
\<close>

fun spaces_then :: "(string \<Rightarrow> 'a option) \<Rightarrow> nat \<Rightarrow> string \<Rightarrow> 'a option" where
  "spaces_then k 0 xs = None"
| "spaces_then k (Suc j) xs =
     (case k (drop (Suc j) xs) of Some r \<Rightarrow> Some r | None \<Rightarrow> spaces_then k j xs)"

definition match_spaces :: "(string \<Rightarrow> 'a option) \<Rightarrow> string \<Rightarrow> 'a option" where
  "match_spaces k xs = spaces_then k (length (takeWhile is_space xs)) xs"

text \<open>A literal word.\<close>

definition match_literal :: "string \<Rightarrow> (string \<Rightarrow> 'a option) \<Rightarrow> string \<Rightarrow> 'a option" where
  "match_literal lit k xs =
     (if take (length lit) xs = lit then k (drop (length lit) xs) else None)"

text \<open>
  \<^verbatim>\<open>(.+)\<close>, greedy, at the end of the pattern: nothing follows it, so the first
  attempt, the whole run of characters up to the line feed, is the match when it is not
  empty. The result is the group and the text after the match.
\<close>

definition match_dots_greedy :: "string \<Rightarrow> (string \<times> string) option" where
  "match_dots_greedy xs =
     (if takeWhile is_dot xs = [] then None
      else Some (takeWhile is_dot xs, dropWhile is_dot xs))"

text \<open>
  \<^verbatim>\<open>(.+?)\<close>, lazy: the engine takes one character, tries the rest of the pattern,
  and on failure takes one more character, as long as the next character is not a line
  feed. \<open>g\<close> is the group matched so far.
\<close>

fun match_dots_lazy :: "(string \<Rightarrow> 'a option) \<Rightarrow> string \<Rightarrow> string \<Rightarrow> (string \<times> 'a) option" where
  "match_dots_lazy k g [] = None"
| "match_dots_lazy k g (c # xs) =
     (if is_dot c
      then (case k xs of
              Some r \<Rightarrow> Some (g @ [c], r)
            | None \<Rightarrow> match_dots_lazy k (g @ [c]) xs)
      else None)"

text \<open>
  The whole pattern \<^verbatim>\<open>(.+?)\s+implies\s+(.+)\<close> at the start of \<open>xs\<close>: group 1,
  group 2 and the text after the match.
\<close>

definition match_here :: "string \<Rightarrow> (string \<times> string \<times> string) option" where
  "match_here xs =
     match_dots_lazy
       (match_spaces (match_literal ''implies'' (match_spaces match_dots_greedy))) [] xs"

text \<open>
  \<^verbatim>\<open>re.search\<close>: the match at the leftmost position that has one. \<open>pre\<close> is the text
  before the position tried. The result is the text before the match, the two groups and
  the text after the match.
\<close>

fun search_from :: "string \<Rightarrow> string \<Rightarrow> (string \<times> string \<times> string \<times> string) option" where
  "search_from pre [] =
     (case match_here [] of
        Some (g1, g2, post) \<Rightarrow> Some (pre, g1, g2, post)
      | None \<Rightarrow> None)"
| "search_from pre (c # xs) =
     (case match_here (c # xs) of
        Some (g1, g2, post) \<Rightarrow> Some (pre, g1, g2, post)
      | None \<Rightarrow> search_from (pre @ [c]) xs)"

definition re_search :: "string \<Rightarrow> (string \<times> string \<times> string \<times> string) option" where
  "re_search expr = search_from [] expr"

text \<open>
  \<^verbatim>\<open>re.sub(pattern, r"implies(\1, \2)", expr, count=1)\<close>: the leftmost match, the one
  \<^verbatim>\<open>re.search\<close> finds, is replaced by the expanded template; a text with no match
  is returned as it is.
\<close>

definition re_sub_first :: "string \<Rightarrow> string" where
  "re_sub_first expr =
     (case re_search expr of
        None \<Rightarrow> expr
      | Some (pre, g1, g2, post) \<Rightarrow> pre @ ''implies('' @ g1 @ '', '' @ g2 @ '')'' @ post)"

text \<open>The loop. Not returning is the value \<open>None\<close>.\<close>

partial_function (option) rewrite_implies :: "string \<Rightarrow> string option" where
  "rewrite_implies expr =
     (if re_search expr \<noteq> None then rewrite_implies (re_sub_first expr) else Some expr)"

declare rewrite_implies.simps [code]

subsection \<open>What a match is, and what the loop counts down\<close>

text \<open>
  The shape of a match of the pattern in \<open>e\<close>: the text before it, group 1, white space,
  the word, white space, group 2, the text after it; both groups are not empty and hold
  no line feed.
\<close>

definition matched_by :: "string \<Rightarrow> string \<Rightarrow> string \<Rightarrow> string \<Rightarrow> string \<Rightarrow> bool" where
  "matched_by e p g1 g2 post =
     (\<exists>w1 w2. e = p @ g1 @ w1 @ ''implies'' @ w2 @ g2 @ post
        \<and> g1 \<noteq> [] \<and> list_all is_dot g1 \<and> g2 \<noteq> [] \<and> list_all is_dot g2
        \<and> w1 \<noteq> [] \<and> list_all is_space w1 \<and> w2 \<noteq> [] \<and> list_all is_space w2)"

text \<open>
  The keyword \<^verbatim>\<open>implies\<close> used as an infix operator somewhere in \<open>e\<close>, in the
  specification's words \<^verbatim>\<open><left> implies <right>\<close>: a character of a left operand,
  white space, the word, white space, a character of a right operand, where an operand
  does not run over a line feed.
\<close>

definition infix_implies_in :: "string \<Rightarrow> bool" where
  "infix_implies_in e =
     (\<exists>pre l w1 w2 g post. e = pre @ [l] @ w1 @ ''implies'' @ w2 @ [g] @ post
        \<and> is_dot l \<and> is_dot g
        \<and> w1 \<noteq> [] \<and> list_all is_space w1 \<and> w2 \<noteq> [] \<and> list_all is_space w2)"

text \<open>
  The bare keyword, in the wider sense of the words "no bare \<^verbatim>\<open>implies\<close> keyword":
  the word \<^verbatim>\<open>implies\<close> as a token of its own (no letter, digit or underscore
  stands next to it) that is not the name of a call (what follows it, after any white
  space, is not an opening parenthesis). \<open>at_start\<close> says that the character before
  the position read is not a letter, a digit or an underscore.
\<close>

fun bare_implies_scan :: "bool \<Rightarrow> string \<Rightarrow> bool" where
  "bare_implies_scan at_start [] = False"
| "bare_implies_scan at_start (c # cs) =
     ((at_start \<and> take 7 (c # cs) = ''implies''
         \<and> \<not> list_ex is_ident_char (take 1 (drop 7 (c # cs)))
         \<and> take 1 (dropWhile is_space (drop 7 (c # cs))) \<noteq> ''('')
      \<or> bare_implies_scan (\<not> is_ident_char c) cs)"

definition bare_implies_in :: "string \<Rightarrow> bool" where
  "bare_implies_in e = bare_implies_scan True e"

text \<open>The number of white-space characters of a text.\<close>

definition count_spaces :: "string \<Rightarrow> nat" where
  "count_spaces e = length (filter is_space e)"

section \<open>Values, errors and dictionaries\<close>

text \<open>
  The values an expression of the allowed grammar computes over the bindings the
  evaluator is written for: \<^verbatim>\<open>None\<close>, booleans, integers (unbounded, as Python's),
  finite floating-point numbers and the not-a-number float, and the four function
  objects of \<^verbatim>\<open>ALLOWED_FUNCS\<close>. A finite float is represented by the rational
  number it denotes: comparisons, negation, the absolute value and the truth value of a
  float are exact functions of that number. Arithmetic that rounds is outside the model
  (see \<open>NotModelled\<close> below).
\<close>

datatype pyfunc = F_abs | F_min | F_max | F_implies

datatype pyval = VNone | VBool bool | VInt int | VFloat rat | VNaN | VFunc pyfunc

text \<open>
  The exceptions the code raises or lets through. \<open>NotModelled\<close> is not a Python
  exception: it marks the border of the model (rounding float arithmetic, the identity
  of number objects, syntax trees no parser builds), where the model does not say what
  Python does.
\<close>

datatype error =
    SyntaxError
  | ValueError string
  | NameError string
  | TypeError
  | ZeroDivisionError
  | NotModelled

text \<open>
  A dictionary keeps its items in insertion order: an association list without repeated
  keys. \<^verbatim>\<open>d[k] = v\<close> replaces the value of a key that is present, in place, and
  appends a new key at the end.
\<close>

type_synonym pydict = "(string \<times> pyval) list"

fun dict_set :: "string \<Rightarrow> pyval \<Rightarrow> pydict \<Rightarrow> pydict" where
  "dict_set k v [] = [(k, v)]"
| "dict_set k v ((k', v') # d) = (if k' = k then (k, v) # d else (k', v') # dict_set k v d)"

definition dict_get :: "pydict \<Rightarrow> string \<Rightarrow> pyval option" where
  "dict_get d k = map_of d k"

definition dict_keys :: "pydict \<Rightarrow> string list" where
  "dict_keys d = map fst d"

text \<open>\<^verbatim>\<open>{**a, **b}\<close>: the items of \<open>a\<close>, then each item of \<open>b\<close> stored in turn.\<close>

definition dict_merge :: "pydict \<Rightarrow> pydict \<Rightarrow> pydict" where
  "dict_merge a b = fold (\<lambda>(k, v) d. dict_set k v d) b a"

section \<open>The allowlists\<close>

text \<open>
  \<^verbatim>\<open>
  def implies(a: bool, b: bool) -> bool:
      return (not a) or b
  \<close>
  Python's \<^verbatim>\<open>or\<close> returns its first operand when that is true and its second operand
  otherwise, so the result is \<^verbatim>\<open>True\<close> or the second argument itself.
\<close>

fun truthy :: "pyval \<Rightarrow> bool" where
  "truthy VNone = False"
| "truthy (VBool b) = b"
| "truthy (VInt n) = (n \<noteq> 0)"
| "truthy (VFloat q) = (q \<noteq> 0)"
| "truthy VNaN = True"
| "truthy (VFunc f) = True"

definition implies_py :: "pyval \<Rightarrow> pyval \<Rightarrow> pyval" where
  "implies_py a b = (if truthy (VBool (\<not> truthy a)) then VBool (\<not> truthy a) else b)"

definition ALLOWED_VARS :: "string list" where
  "ALLOWED_VARS = [''n'', ''m'', ''is_connected'', ''diameter'', ''num_triangles'',
     ''max_degree'', ''avg_degree'', ''density'']"

definition ALLOWED_FUNCS :: pydict where
  "ALLOWED_FUNCS = [(''abs'', VFunc F_abs), (''min'', VFunc F_min), (''max'', VFunc F_max),
     (''implies'', VFunc F_implies)]"

definition ALLOWED_NAMES :: "string set" where
  "ALLOWED_NAMES = set ALLOWED_VARS \<union> set (dict_keys ALLOWED_FUNCS)"

text \<open>The classes of \<^verbatim>\<open>ALLOWED_NODES\<close>, by name.\<close>

definition ALLOWED_NODES :: "string list" where
  "ALLOWED_NODES = [''Expression'',
     ''BoolOp'', ''BinOp'', ''UnaryOp'', ''Compare'',
     ''Name'', ''Load'', ''Constant'',
     ''And'', ''Or'', ''Not'',
     ''Add'', ''Sub'', ''Mult'', ''Div'',
     ''USub'',
     ''Eq'', ''NotEq'', ''Lt'', ''LtE'', ''Gt'', ''GtE'',
     ''Call'',
     ''Is'', ''IsNot'']"

section \<open>Guarding missing values: \<open>guard_none_comparisons\<close>\<close>

text \<open>
  \<^verbatim>\<open>
  def guard_none_comparisons(env: dict) -> dict:
      out = dict(env)
      for k, v in env.items():
          out[f"{k}_is_none"] = (v is None)
          if v is None:
              out[k] = float("nan")
      return out
  \<close>
\<close>

definition guard_item :: "string \<times> pyval \<Rightarrow> pydict \<Rightarrow> pydict" where
  "guard_item kv out =
     (let out1 = dict_set (fst kv @ ''_is_none'') (VBool (snd kv = VNone)) out
      in if snd kv = VNone then dict_set (fst kv) VNaN out1 else out1)"

definition guard_none_comparisons :: "pydict \<Rightarrow> pydict" where
  "guard_none_comparisons env = fold guard_item env env"

text \<open>
  The companion key of a key, and the bindings in which no key is the companion key of
  a key: there the flag of one key and the value of another never share a slot.
\<close>

definition flag_key :: "string \<Rightarrow> string" where
  "flag_key k = k @ ''_is_none''"

definition no_flag_collision :: "string list \<Rightarrow> bool" where
  "no_flag_collision ks = (\<forall>k \<in> set ks. flag_key k \<notin> set ks)"

section \<open>Syntax trees\<close>

text \<open>
  The trees \<^verbatim>\<open>ast.parse(expr, mode="eval")\<close> builds. The node classes of
  \<^verbatim>\<open>ALLOWED_NODES\<close> are constructors of their own; every other class of expression
  node is an \<open>OtherNode\<close> with its class name and its child nodes (a lambda, a list, an
  attribute, a subscript, a keyword argument, ...), and every other operator class is
  an \<open>Other...\<close> constructor with its class name. A \<open>Name\<close> has its identifier and its
  context; a \<open>Call\<close> has its target, its positional arguments and its keyword
  arguments, each of them an \<open>OtherNode\<close> of class \<^verbatim>\<open>keyword\<close> whose child is the
  value.
\<close>

datatype boolop = And | Or

datatype operator = Add | Sub | Mult | Div | OtherOperator string

datatype unaryop = NotOp | USub | OtherUnaryop string

datatype cmpop = Eq | NotEq | Lt | LtE | Gt | GtE | Is | IsNot | OtherCmpop string

datatype expr_context = Load | Store | Del

datatype expr =
    Constant pyval
  | Name string expr_context
  | BoolOp boolop "expr list"
  | BinOp expr operator expr
  | UnaryOp unaryop expr
  | Compare expr "cmpop list" "expr list"
  | Call expr "expr list" "expr list"
  | OtherNode string "expr list"

text \<open>
  A node of the tree, as \<^verbatim>\<open>ast.walk\<close> yields them: the root (an
  \<^verbatim>\<open>ast.Expression\<close> with its body), an expression, or an operator or context node.
\<close>

datatype node =
    Expression expr
  | ExprNode expr
  | BoolopNode boolop
  | OperatorNode operator
  | UnaryopNode unaryop
  | CmpopNode cmpop
  | ContextNode expr_context

text \<open>\<^verbatim>\<open>type(node).__name__\<close>\<close>

fun class_name :: "node \<Rightarrow> string" where
  "class_name (Expression b) = ''Expression''"
| "class_name (ExprNode (Constant v)) = ''Constant''"
| "class_name (ExprNode (Name x c)) = ''Name''"
| "class_name (ExprNode (BoolOp op vs)) = ''BoolOp''"
| "class_name (ExprNode (BinOp l op r)) = ''BinOp''"
| "class_name (ExprNode (UnaryOp op e)) = ''UnaryOp''"
| "class_name (ExprNode (Compare l ops cs)) = ''Compare''"
| "class_name (ExprNode (Call f as ks)) = ''Call''"
| "class_name (ExprNode (OtherNode cl ch)) = cl"
| "class_name (BoolopNode And) = ''And''"
| "class_name (BoolopNode Or) = ''Or''"
| "class_name (OperatorNode Add) = ''Add''"
| "class_name (OperatorNode Sub) = ''Sub''"
| "class_name (OperatorNode Mult) = ''Mult''"
| "class_name (OperatorNode Div) = ''Div''"
| "class_name (OperatorNode (OtherOperator cl)) = cl"
| "class_name (UnaryopNode NotOp) = ''Not''"
| "class_name (UnaryopNode USub) = ''USub''"
| "class_name (UnaryopNode (OtherUnaryop cl)) = cl"
| "class_name (CmpopNode Eq) = ''Eq''"
| "class_name (CmpopNode NotEq) = ''NotEq''"
| "class_name (CmpopNode Lt) = ''Lt''"
| "class_name (CmpopNode LtE) = ''LtE''"
| "class_name (CmpopNode Gt) = ''Gt''"
| "class_name (CmpopNode GtE) = ''GtE''"
| "class_name (CmpopNode Is) = ''Is''"
| "class_name (CmpopNode IsNot) = ''IsNot''"
| "class_name (CmpopNode (OtherCmpop cl)) = cl"
| "class_name (ContextNode Load) = ''Load''"
| "class_name (ContextNode Store) = ''Store''"
| "class_name (ContextNode Del) = ''Del''"

text \<open>
  \<^verbatim>\<open>ast.iter_child_nodes\<close>: the child nodes in the order of the fields of the class
  (\<^verbatim>\<open>BoolOp(op, values)\<close>, \<^verbatim>\<open>BinOp(left, op, right)\<close>,
  \<^verbatim>\<open>UnaryOp(op, operand)\<close>, \<^verbatim>\<open>Compare(left, ops, comparators)\<close>,
  \<^verbatim>\<open>Call(func, args, keywords)\<close>, \<^verbatim>\<open>Name(id, ctx)\<close>).
\<close>

fun iter_child_nodes :: "node \<Rightarrow> node list" where
  "iter_child_nodes (Expression b) = [ExprNode b]"
| "iter_child_nodes (ExprNode (Constant v)) = []"
| "iter_child_nodes (ExprNode (Name x c)) = [ContextNode c]"
| "iter_child_nodes (ExprNode (BoolOp op vs)) = BoolopNode op # map ExprNode vs"
| "iter_child_nodes (ExprNode (BinOp l op r)) = [ExprNode l, OperatorNode op, ExprNode r]"
| "iter_child_nodes (ExprNode (UnaryOp op e)) = [UnaryopNode op, ExprNode e]"
| "iter_child_nodes (ExprNode (Compare l ops cs)) =
     ExprNode l # map CmpopNode ops @ map ExprNode cs"
| "iter_child_nodes (ExprNode (Call f as ks)) = ExprNode f # map ExprNode as @ map ExprNode ks"
| "iter_child_nodes (ExprNode (OtherNode cl ch)) = map ExprNode ch"
| "iter_child_nodes (BoolopNode op) = []"
| "iter_child_nodes (OperatorNode op) = []"
| "iter_child_nodes (UnaryopNode op) = []"
| "iter_child_nodes (CmpopNode op) = []"
| "iter_child_nodes (ContextNode c) = []"

text \<open>
  \<^verbatim>\<open>
  def walk(node):
      todo = deque([node])
      while todo:
          node = todo.popleft()
          todo.extend(iter_child_nodes(node))
          yield node
  \<close>
  The nodes in breadth-first order. The measure of the queue is the number of nodes still
  to come: the nodes in the queue and below them.
\<close>

fun expr_count :: "expr \<Rightarrow> nat" where
  "expr_count (Constant v) = 1"
| "expr_count (Name x c) = 2"
| "expr_count (BoolOp op vs) = 2 + sum_list (map expr_count vs)"
| "expr_count (BinOp l op r) = 2 + expr_count l + expr_count r"
| "expr_count (UnaryOp op e) = 2 + expr_count e"
| "expr_count (Compare l ops cs) = 1 + expr_count l + length ops + sum_list (map expr_count cs)"
| "expr_count (Call f as ks) =
     1 + expr_count f + sum_list (map expr_count as) + sum_list (map expr_count ks)"
| "expr_count (OtherNode cl ch) = 1 + sum_list (map expr_count ch)"

fun node_count :: "node \<Rightarrow> nat" where
  "node_count (Expression b) = 1 + expr_count b"
| "node_count (ExprNode e) = expr_count e"
| "node_count (BoolopNode op) = 1"
| "node_count (OperatorNode op) = 1"
| "node_count (UnaryopNode op) = 1"
| "node_count (CmpopNode op) = 1"
| "node_count (ContextNode c) = 1"

function walk_queue :: "node list \<Rightarrow> node list" where
  "walk_queue [] = []"
| "walk_queue (node # todo) = node # walk_queue (todo @ iter_child_nodes node)"
  by pat_completeness auto

lemma count_ExprNodes:
  "sum_list (map (node_count \<circ> ExprNode) es) = sum_list (map expr_count es)"
  by (induction es) simp_all

lemma count_CmpopNodes: "sum_list (map (node_count \<circ> CmpopNode) ops) = length ops"
  by (induction ops) simp_all

lemma count_children: "Suc (sum_list (map node_count (iter_child_nodes n))) = node_count n"
proof (cases n)
  case (ExprNode e)
  then show ?thesis
    by (cases e) (simp_all add: count_ExprNodes count_CmpopNodes)
qed simp_all

termination walk_queue
proof (relation "measure (\<lambda>todo. sum_list (map node_count todo))")
  show "wf (measure (\<lambda>todo. sum_list (map node_count todo)))" by simp
next
  fix n :: node and todo :: "node list"
  from count_children [of n]
  show "(todo @ iter_child_nodes n, n # todo) \<in> measure (\<lambda>todo. sum_list (map node_count todo))"
    by simp
qed

definition ast_walk :: "node \<Rightarrow> node list" where
  "ast_walk tree = walk_queue [tree]"

text \<open>
  Every node of a tree, the nested ones included: the node, then the nodes of each of
  its children (depth first). This is what "every node of the tree" means below; that
  \<open>ast_walk\<close> yields exactly these nodes is proved, not assumed.
\<close>

lemma child_count_less: "c \<in> set (iter_child_nodes n) \<Longrightarrow> node_count c < node_count n"
proof -
  assume "c \<in> set (iter_child_nodes n)"
  then have "node_count c \<le> sum_list (map node_count (iter_child_nodes n))"
    by (simp add: member_le_sum_list)
  with count_children [of n] show ?thesis by linarith
qed

function subtree_nodes :: "node \<Rightarrow> node list" where
  "subtree_nodes n = n # concat (map subtree_nodes (iter_child_nodes n))"
  by pat_completeness auto
termination
  by (relation "measure node_count") (simp_all add: child_count_less)

declare subtree_nodes.simps [simp del]

section \<open>Validation of the tree\<close>

text \<open>
  The body of the loop of \<^verbatim>\<open>safe_eval_expr\<close> (lines 87 to 96), for one node:
  \<^verbatim>\<open>
  if not isinstance(node, ALLOWED_NODES):
      raise ValueError(f"Disallowed syntax: {type(node).__name__}")
  if isinstance(node, ast.Name) and node.id not in ALLOWED_NAMES:
      raise ValueError(f"Disallowed name: {node.id}")
  if isinstance(node, ast.Call):
      if not isinstance(node.func, ast.Name) or node.func.id not in ALLOWED_FUNCS:
          raise ValueError("Only calls to allowed functions are permitted.")
  \<close>
  The three errors are the same Python exception with three messages; the names below
  are the specification's names for them.
\<close>

definition DisallowedSyntaxError :: "string \<Rightarrow> error" where
  "DisallowedSyntaxError cl = ValueError (''Disallowed syntax: '' @ cl)"

definition DisallowedNameError :: "string \<Rightarrow> error" where
  "DisallowedNameError x = ValueError (''Disallowed name: '' @ x)"

definition DisallowedCallError :: error where
  "DisallowedCallError = ValueError ''Only calls to allowed functions are permitted.''"

fun allowed_call_target :: "expr \<Rightarrow> bool" where
  "allowed_call_target (Name x c) = (x \<in> set (dict_keys ALLOWED_FUNCS))"
| "allowed_call_target f = False"

fun check_node :: "node \<Rightarrow> error + unit" where
  "check_node (ExprNode (Name x c)) =
     (if x \<in> ALLOWED_NAMES then Inr () else Inl (DisallowedNameError x))"
| "check_node (ExprNode (Call f as ks)) =
     (if allowed_call_target f then Inr () else Inl DisallowedCallError)"
| "check_node node = Inr ()"

definition validate_node :: "node \<Rightarrow> error + unit" where
  "validate_node node =
     (if class_name node \<in> set ALLOWED_NODES then check_node node
      else Inl (DisallowedSyntaxError (class_name node)))"

text \<open>\<^verbatim>\<open>for node in ast.walk(tree): ...\<close>: the first error ends the loop.\<close>

fun validate_nodes :: "node list \<Rightarrow> error + unit" where
  "validate_nodes [] = Inr ()"
| "validate_nodes (node # nodes) =
     (case validate_node node of Inl e \<Rightarrow> Inl e | Inr u \<Rightarrow> validate_nodes nodes)"

text \<open>
  The three ways a node breaks the allowlists, in the specification's words: its kind
  is outside the allowed node kinds, or it is a bare name outside the allowed names, or
  it is a call whose target is not a bare name of an allowed function.
\<close>

fun name_outside :: "node \<Rightarrow> bool" where
  "name_outside (ExprNode (Name x c)) = (x \<notin> ALLOWED_NAMES)"
| "name_outside node = False"

fun call_outside :: "node \<Rightarrow> bool" where
  "call_outside (ExprNode (Call f as ks)) = (\<not> allowed_call_target f)"
| "call_outside node = False"

definition breaks_allowlist :: "node \<Rightarrow> bool" where
  "breaks_allowlist node =
     (class_name node \<notin> set ALLOWED_NODES \<or> name_outside node \<or> call_outside node)"

definition is_validation_error :: "error \<Rightarrow> bool" where
  "is_validation_error e =
     ((\<exists>cl. e = DisallowedSyntaxError cl) \<or> (\<exists>x. e = DisallowedNameError x)
      \<or> e = DisallowedCallError)"

section \<open>Evaluation of a tree\<close>

text \<open>
  \<^verbatim>\<open>eval(compiled, {"__builtins__": {}}, full_env)\<close> on the trees of the allowed
  grammar: what Python's operators do on the values of \<open>pyval\<close>.
\<close>

datatype number = Finite rat | NaN

fun as_number :: "pyval \<Rightarrow> number option" where
  "as_number (VBool b) = Some (Finite (if b then 1 else 0))"
| "as_number (VInt n) = Some (Finite (of_int n))"
| "as_number (VFloat q) = Some (Finite q)"
| "as_number VNaN = Some NaN"
| "as_number v = None"

fun as_int :: "pyval \<Rightarrow> int option" where
  "as_int (VBool b) = Some (if b then 1 else 0)"
| "as_int (VInt n) = Some n"
| "as_int v = None"

text \<open>
  \<^verbatim>\<open>==\<close>: numbers are equal when they denote the same number, and not-a-number is
  equal to nothing; \<^verbatim>\<open>None\<close> and the functions are equal to themselves only.
\<close>

definition py_eq :: "pyval \<Rightarrow> pyval \<Rightarrow> bool" where
  "py_eq a b =
     (case (as_number a, as_number b) of
        (Some (Finite x), Some (Finite y)) \<Rightarrow> x = y
      | (Some x, Some y) \<Rightarrow> False
      | (None, None) \<Rightarrow> a = b
      | _ \<Rightarrow> False)"

text \<open>
  The order comparisons: between numbers, false as soon as one operand is not-a-number;
  \<^verbatim>\<open>TypeError\<close> when an operand is \<^verbatim>\<open>None\<close> or a function.
\<close>

fun order_holds :: "cmpop \<Rightarrow> rat \<Rightarrow> rat \<Rightarrow> bool" where
  "order_holds Lt x y = (x < y)"
| "order_holds LtE x y = (x \<le> y)"
| "order_holds Gt x y = (x > y)"
| "order_holds GtE x y = (x \<ge> y)"
| "order_holds op x y = False"

definition py_order :: "cmpop \<Rightarrow> pyval \<Rightarrow> pyval \<Rightarrow> error + bool" where
  "py_order op a b =
     (case (as_number a, as_number b) of
        (Some (Finite x), Some (Finite y)) \<Rightarrow> Inr (order_holds op x y)
      | (Some x, Some y) \<Rightarrow> Inr False
      | _ \<Rightarrow> Inl TypeError)"

text \<open>
  \<^verbatim>\<open>is\<close>: \<^verbatim>\<open>None\<close>, the two booleans and the functions are single objects;
  values of different types are different objects; whether two numbers are one object
  is outside the model.
\<close>

fun py_is :: "pyval \<Rightarrow> pyval \<Rightarrow> error + bool" where
  "py_is VNone VNone = Inr True"
| "py_is (VBool x) (VBool y) = Inr (x = y)"
| "py_is (VFunc f) (VFunc g) = Inr (f = g)"
| "py_is (VInt x) (VInt y) = Inl NotModelled"
| "py_is (VFloat x) (VFloat y) = Inl NotModelled"
| "py_is (VFloat x) VNaN = Inl NotModelled"
| "py_is VNaN (VFloat y) = Inl NotModelled"
| "py_is VNaN VNaN = Inl NotModelled"
| "py_is a b = Inr False"

fun py_compare :: "cmpop \<Rightarrow> pyval \<Rightarrow> pyval \<Rightarrow> error + pyval" where
  "py_compare Eq a b = Inr (VBool (py_eq a b))"
| "py_compare NotEq a b = Inr (VBool (\<not> py_eq a b))"
| "py_compare Is a b = map_sum id VBool (py_is a b)"
| "py_compare IsNot a b = map_sum id (\<lambda>r. VBool (\<not> r)) (py_is a b)"
| "py_compare (OtherCmpop cl) a b = Inl NotModelled"
| "py_compare op a b = map_sum id VBool (py_order op a b)"

text \<open>
  The arithmetic operators: exact on integers and booleans; \<^verbatim>\<open>TypeError\<close> when an
  operand is \<^verbatim>\<open>None\<close> or a function; division of integers by zero raises; every
  other case computes a float by rounding and is outside the model.
\<close>

fun int_binop :: "operator \<Rightarrow> int \<Rightarrow> int \<Rightarrow> error + pyval" where
  "int_binop Add x y = Inr (VInt (x + y))"
| "int_binop Sub x y = Inr (VInt (x - y))"
| "int_binop Mult x y = Inr (VInt (x * y))"
| "int_binop Div x y = (if y = 0 then Inl ZeroDivisionError else Inl NotModelled)"
| "int_binop (OtherOperator cl) x y = Inl NotModelled"

definition py_binop :: "operator \<Rightarrow> pyval \<Rightarrow> pyval \<Rightarrow> error + pyval" where
  "py_binop op a b =
     (if as_number a = None \<or> as_number b = None
      then (case op of OtherOperator cl \<Rightarrow> Inl NotModelled | _ \<Rightarrow> Inl TypeError)
      else (case (as_int a, as_int b) of
              (Some x, Some y) \<Rightarrow> int_binop op x y
            | _ \<Rightarrow> Inl NotModelled))"

fun py_unaryop :: "unaryop \<Rightarrow> pyval \<Rightarrow> error + pyval" where
  "py_unaryop NotOp v = Inr (VBool (\<not> truthy v))"
| "py_unaryop USub (VBool b) = Inr (VInt (if b then - 1 else 0))"
| "py_unaryop USub (VInt n) = Inr (VInt (- n))"
| "py_unaryop USub (VFloat q) = Inr (VFloat (- q))"
| "py_unaryop USub VNaN = Inr VNaN"
| "py_unaryop USub v = Inl TypeError"
| "py_unaryop (OtherUnaryop cl) v = Inl NotModelled"

text \<open>
  The functions of \<^verbatim>\<open>ALLOWED_FUNCS\<close>. \<^verbatim>\<open>min\<close> and \<^verbatim>\<open>max\<close> of two or more
  arguments keep the first argument and replace it by each later one that compares
  smaller (greater); with one argument they ask for an iterable, which no value here is.
  A wrong number of arguments is a \<^verbatim>\<open>TypeError\<close>.
\<close>

fun py_abs :: "pyval \<Rightarrow> error + pyval" where
  "py_abs (VBool b) = Inr (VInt (if b then 1 else 0))"
| "py_abs (VInt n) = Inr (VInt \<bar>n\<bar>)"
| "py_abs (VFloat q) = Inr (VFloat \<bar>q\<bar>)"
| "py_abs VNaN = Inr VNaN"
| "py_abs v = Inl TypeError"

fun py_extremum :: "cmpop \<Rightarrow> pyval \<Rightarrow> pyval list \<Rightarrow> error + pyval" where
  "py_extremum op best [] = Inr best"
| "py_extremum op best (v # vs) =
     (case py_order op v best of
        Inl e \<Rightarrow> Inl e
      | Inr b \<Rightarrow> py_extremum op (if b then v else best) vs)"

fun py_call :: "pyfunc \<Rightarrow> pyval list \<Rightarrow> error + pyval" where
  "py_call F_abs [v] = py_abs v"
| "py_call F_min (v # w # vs) = py_extremum Lt v (w # vs)"
| "py_call F_max (v # w # vs) = py_extremum Gt v (w # vs)"
| "py_call F_implies [a, b] = Inr (implies_py a b)"
| "py_call f vs = Inl TypeError"

text \<open>
  A name is looked up in the local names \<open>full_env\<close>, then in the global names
  \<^verbatim>\<open>{"__builtins__": {}}\<close>, then in the builtins, which are empty: a name that
  \<open>full_env\<close> does not bind raises \<^verbatim>\<open>NameError\<close>, but for \<^verbatim>\<open>__builtins__\<close>, whose
  value is a dictionary.
\<close>

definition lookup_name :: "pydict \<Rightarrow> string \<Rightarrow> error + pyval" where
  "lookup_name full_env x =
     (case dict_get full_env x of
        Some v \<Rightarrow> Inr v
      | None \<Rightarrow> if x = ''__builtins__'' then Inl NotModelled else Inl (NameError x))"

text \<open>
  The evaluation of an expression. \<^verbatim>\<open>and\<close> and \<^verbatim>\<open>or\<close> return the operand that
  decides and do not evaluate the operands after it; a chain of comparisons stops at the
  first comparison that is false; a call evaluates its target, then its arguments from
  left to right, then calls.
\<close>

fun py_eval :: "pydict \<Rightarrow> expr \<Rightarrow> error + pyval"
  and eval_boolop :: "pydict \<Rightarrow> boolop \<Rightarrow> expr list \<Rightarrow> error + pyval"
  and eval_chain :: "pydict \<Rightarrow> pyval \<Rightarrow> cmpop list \<Rightarrow> expr list \<Rightarrow> error + pyval"
  and eval_args :: "pydict \<Rightarrow> expr list \<Rightarrow> error + pyval list"
where
  "py_eval env (Constant v) = Inr v"
| "py_eval env (Name x c) = (if c = Load then lookup_name env x else Inl NotModelled)"
| "py_eval env (BoolOp op vs) = eval_boolop env op vs"
| "py_eval env (BinOp l op r) =
     (case py_eval env l of
        Inl e \<Rightarrow> Inl e
      | Inr a \<Rightarrow> (case py_eval env r of Inl e \<Rightarrow> Inl e | Inr b \<Rightarrow> py_binop op a b))"
| "py_eval env (UnaryOp op e) =
     (case py_eval env e of Inl err \<Rightarrow> Inl err | Inr v \<Rightarrow> py_unaryop op v)"
| "py_eval env (Compare l ops cs) =
     (case py_eval env l of Inl e \<Rightarrow> Inl e | Inr a \<Rightarrow> eval_chain env a ops cs)"
| "py_eval env (Call f as ks) =
     (if ks \<noteq> [] then Inl NotModelled
      else (case py_eval env f of
              Inl e \<Rightarrow> Inl e
            | Inr fv \<Rightarrow>
                (case eval_args env as of
                   Inl e \<Rightarrow> Inl e
                 | Inr vs \<Rightarrow> (case fv of VFunc g \<Rightarrow> py_call g vs | _ \<Rightarrow> Inl TypeError))))"
| "py_eval env (OtherNode cl ch) = Inl NotModelled"
| "eval_boolop env op [] = Inl NotModelled"
| "eval_boolop env op [e] = py_eval env e"
| "eval_boolop env op (e # e' # es) =
     (case py_eval env e of
        Inl err \<Rightarrow> Inl err
      | Inr v \<Rightarrow>
          if (case op of And \<Rightarrow> \<not> truthy v | Or \<Rightarrow> truthy v) then Inr v
          else eval_boolop env op (e' # es))"
| "eval_chain env a [op] [c] =
     (case py_eval env c of Inl e \<Rightarrow> Inl e | Inr b \<Rightarrow> py_compare op a b)"
| "eval_chain env a (op # op' # ops) (c # c' # cs) =
     (case py_eval env c of
        Inl e \<Rightarrow> Inl e
      | Inr b \<Rightarrow>
          (case py_compare op a b of
             Inl e \<Rightarrow> Inl e
           | Inr r \<Rightarrow> if truthy r then eval_chain env b (op' # ops) (c' # cs) else Inr r))"
| "eval_chain env a ops cs = Inl NotModelled"
| "eval_args env [] = Inr []"
| "eval_args env (e # es) =
     (case py_eval env e of
        Inl err \<Rightarrow> Inl err
      | Inr v \<Rightarrow> (case eval_args env es of Inl err \<Rightarrow> Inl err | Inr vs \<Rightarrow> Inr (v # vs)))"



section \<open>The evaluator: \<open>safe_eval_expr\<close>\<close>

text \<open>
  \<^verbatim>\<open>
  def safe_eval_expr(expr: str, env: dict) -> bool:
      expr = rewrite_implies(expr)
      tree = ast.parse(expr, mode="eval")
      env = guard_none_comparisons(env)
      for node in ast.walk(tree):
          ...
      compiled = compile(tree, "<expr>", "eval")
      full_env = {**ALLOWED_FUNCS, **env}
      return bool(eval(compiled, {"__builtins__": {}}, full_env))
  \<close>
  \<open>safe_eval_tree\<close> is the function from the third line on, on the body of the parsed
  \<^verbatim>\<open>ast.Expression\<close>. Python's parser is not part of the repository: it is the
  parameter \<open>ast_parse\<close> of \<open>safe_eval_expr\<close>, which returns the body of the tree or
  the parse error.
\<close>

subsection \<open>A parser for a fragment of the grammar\<close>

text \<open>
  To run \<open>safe_eval_expr\<close> on a concrete text, \<open>ast_parse_fragment\<close> stands in for
  Python's parser on a fragment of Python's expression grammar: names, the constants
  \<^verbatim>\<open>True\<close>, \<^verbatim>\<open>False\<close>, \<^verbatim>\<open>None\<close> and decimal integers, parentheses, calls with
  positional arguments, unary minus, \<^verbatim>\<open>* / + -\<close>, the comparisons
  \<^verbatim>\<open>< <= > >= == != is\<close> and \<^verbatim>\<open>is not\<close> (chained as Python chains them),
  \<^verbatim>\<open>not\<close>, \<^verbatim>\<open>and\<close>, \<^verbatim>\<open>or\<close>, with Python's precedences, and spaces between
  tokens. On every other text the result is \<open>Inl NotModelled\<close>: the fragment parser
  never reports a syntax error and never claims a tree for a text it does not cover. The
  theorems that hold for every parser are stated for the parameter \<open>ast_parse\<close>; only
  the evaluations of concrete texts use the fragment parser.
\<close>

datatype token = T_name string | T_number int | T_sym string

definition decimal :: "string \<Rightarrow> int" where
  "decimal ds = foldl (\<lambda>n d. 10 * n + (int (of_char d) - 48)) 0 ds"

text \<open>
  The tokens of a text. A number is \<^verbatim>\<open>0\<close> or starts with a digit that is not zero,
  and is not followed by a letter, a digit, an underscore or a dot; an operator of one
  character is not followed by a character that could make it a longer operator.
\<close>

function tokenize :: "string \<Rightarrow> token list option" where
  "tokenize [] = Some []"
| "tokenize (c # cs) =
     (if c = CHR '' '' then tokenize cs
      else if is_ident_start c then
        map_option (Cons (T_name (c # takeWhile is_ident_char cs)))
          (tokenize (dropWhile is_ident_char cs))
      else if is_digit c then
        (if (c = CHR ''0'' \<and> takeWhile is_digit cs \<noteq> [])
            \<or> (case dropWhile is_digit cs of
                  [] \<Rightarrow> False
                | r # rs \<Rightarrow> is_ident_char r \<or> r = CHR ''.'')
         then None
         else map_option (Cons (T_number (decimal (c # takeWhile is_digit cs))))
                (tokenize (dropWhile is_digit cs)))
      else if [c] @ take 1 cs \<in> set [''<='', ''>='', ''=='', ''!='']
        then map_option (Cons (T_sym ([c] @ take 1 cs))) (tokenize (drop 1 cs))
      else if c \<in> set ''(),'' then map_option (Cons (T_sym [c])) (tokenize cs)
      else if c \<in> set ''+-*/<>'' \<and> take 1 cs \<notin> set [''='', ''*'', ''/'', ''<'', ''>'']
        then map_option (Cons (T_sym [c])) (tokenize cs)
      else None)"
  by pat_completeness auto
termination
  by (relation "measure length") (auto simp: less_Suc_eq_le length_dropWhile_le)

text \<open>Python's reserved words: none of them is a name.\<close>

definition reserved_words :: "string list" where
  "reserved_words = [''False'', ''None'', ''True'', ''and'', ''as'', ''assert'', ''async'',
     ''await'', ''break'', ''class'', ''continue'', ''def'', ''del'', ''elif'', ''else'',
     ''except'', ''finally'', ''for'', ''from'', ''global'', ''if'', ''import'', ''in'',
     ''is'', ''lambda'', ''nonlocal'', ''not'', ''or'', ''pass'', ''raise'', ''return'',
     ''try'', ''while'', ''with'', ''yield'']"

text \<open>
  The binary operators of each precedence level, lowest first: level 0 is \<^verbatim>\<open>or\<close>,
  1 is \<^verbatim>\<open>and\<close>, 2 is \<^verbatim>\<open>not\<close>, 3 the comparisons, 4 is \<^verbatim>\<open>+ -\<close>, 5 is
  \<^verbatim>\<open>* /\<close>, 6 the unary minus, 7 the atoms and calls. \<open>operator_at\<close> reads the
  operator of a level at the head of the tokens: its class name and the tokens after it.
\<close>

fun operator_at :: "nat \<Rightarrow> token list \<Rightarrow> (string \<times> token list) option" where
  "operator_at lvl (T_name w # ts) =
     (if lvl = 0 \<and> w = ''or'' then Some (''Or'', ts)
      else if lvl = 1 \<and> w = ''and'' then Some (''And'', ts)
      else if lvl = 3 \<and> w = ''is'' then
        (case ts of
           T_name v # t1 \<Rightarrow> if v = ''not'' then Some (''IsNot'', t1) else Some (''Is'', ts)
         | _ \<Rightarrow> Some (''Is'', ts))
      else None)"
| "operator_at lvl (T_sym w # ts) =
     (if lvl = 3 then map_option (\<lambda>cl. (cl, ts))
          (map_of [(''<'', ''Lt''), (''<='', ''LtE''), (''>'', ''Gt''), (''>='', ''GtE''),
                   (''=='', ''Eq''), (''!='', ''NotEq'')] w)
      else if lvl = 4 then
        map_option (\<lambda>cl. (cl, ts)) (map_of [(''+'', ''Add''), (''-'', ''Sub'')] w)
      else if lvl = 5 then
        map_option (\<lambda>cl. (cl, ts)) (map_of [(''*'', ''Mult''), (''/'', ''Div'')] w)
      else None)"
| "operator_at lvl ts = None"

definition cmpop_of :: "string \<Rightarrow> cmpop" where
  "cmpop_of cl = (case map_of [(''Lt'', Lt), (''LtE'', LtE), (''Gt'', Gt), (''GtE'', GtE),
      (''Eq'', Eq), (''NotEq'', NotEq), (''Is'', Is), (''IsNot'', IsNot)] cl of
        Some op \<Rightarrow> op | None \<Rightarrow> OtherCmpop cl)"

definition operator_of :: "string \<Rightarrow> operator" where
  "operator_of cl = (case map_of [(''Add'', Add), (''Sub'', Sub), (''Mult'', Mult),
      (''Div'', Div)] cl of Some op \<Rightarrow> op | None \<Rightarrow> OtherOperator cl)"

text \<open>
  The tree of a level from its first operand and the operators and operands after it:
  one \<^verbatim>\<open>BoolOp\<close> for a run of \<^verbatim>\<open>or\<close> (of \<^verbatim>\<open>and\<close>), one \<^verbatim>\<open>Compare\<close> for a chain
  of comparisons, \<^verbatim>\<open>BinOp\<close>s nested to the left for the arithmetic operators.
\<close>

definition build_level :: "nat \<Rightarrow> expr \<Rightarrow> (string \<times> expr) list \<Rightarrow> expr" where
  "build_level lvl first rest =
     (if rest = [] then first
      else if lvl = 0 then BoolOp Or (first # map snd rest)
      else if lvl = 1 then BoolOp And (first # map snd rest)
      else if lvl = 3 then Compare first (map (cmpop_of \<circ> fst) rest) (map snd rest)
      else foldl (\<lambda>l (cl, r). BinOp l (operator_of cl) r) first rest)"

text \<open>
  The parser, by recursive descent. The first argument bounds the depth of the
  recursion; running out of it gives \<open>None\<close>, as every text outside the fragment does.
\<close>

definition closing :: "(('a \<times> token list) option) \<Rightarrow> ('a \<times> token list) option" where
  "closing r =
     (case r of
        Some (x, T_sym w # ts) \<Rightarrow> if w = '')'' then Some (x, ts) else None
      | _ \<Rightarrow> None)"

function parse_level :: "nat \<Rightarrow> nat \<Rightarrow> token list \<Rightarrow> (expr \<times> token list) option"
  and parse_operands ::
    "nat \<Rightarrow> nat \<Rightarrow> token list \<Rightarrow> ((string \<times> expr) list \<times> token list) option"
  and parse_calls :: "nat \<Rightarrow> expr \<Rightarrow> token list \<Rightarrow> (expr \<times> token list) option"
  and parse_args :: "nat \<Rightarrow> token list \<Rightarrow> (expr list \<times> token list) option"
where
  "parse_level 0 lvl ts = None"
| "parse_level (Suc n) lvl ts =
     (if lvl = 2 then
        (if take 1 ts = [T_name ''not'']
         then (case parse_level n 2 (drop 1 ts) of
                 None \<Rightarrow> None
               | Some (e, t1) \<Rightarrow> Some (UnaryOp NotOp e, t1))
         else parse_level n 3 ts)
      else if lvl = 6 then
        (if take 1 ts = [T_sym ''-'']
         then (case parse_level n 6 (drop 1 ts) of
                 None \<Rightarrow> None
               | Some (e, t1) \<Rightarrow> Some (UnaryOp USub e, t1))
         else parse_level n 7 ts)
      else if lvl = 7 then
        (case ts of
           T_name w # t1 \<Rightarrow>
             if w = ''True'' then parse_calls n (Constant (VBool True)) t1
             else if w = ''False'' then parse_calls n (Constant (VBool False)) t1
             else if w = ''None'' then parse_calls n (Constant VNone) t1
             else if w \<in> set reserved_words then None
             else parse_calls n (Name w Load) t1
         | T_number k # t1 \<Rightarrow> parse_calls n (Constant (VInt k)) t1
         | T_sym w # t1 \<Rightarrow>
             if w = ''('' then
               (case closing (parse_level n 0 t1) of
                  None \<Rightarrow> None
                | Some (e, t2) \<Rightarrow> parse_calls n e t2)
             else None
         | [] \<Rightarrow> None)
      else if lvl < 7 then
        (case parse_level n (Suc lvl) ts of
           None \<Rightarrow> None
         | Some (first, t1) \<Rightarrow>
             (case parse_operands n lvl t1 of
                None \<Rightarrow> None
              | Some (rest, t2) \<Rightarrow> Some (build_level lvl first rest, t2)))
      else None)"
| "parse_operands 0 lvl ts = None"
| "parse_operands (Suc n) lvl ts =
     (case operator_at lvl ts of
        None \<Rightarrow> Some ([], ts)
      | Some (cl, t1) \<Rightarrow>
          (case parse_level n (Suc lvl) t1 of
             None \<Rightarrow> None
           | Some (e, t2) \<Rightarrow>
               (case parse_operands n lvl t2 of
                  None \<Rightarrow> None
                | Some (rest, t3) \<Rightarrow> Some ((cl, e) # rest, t3))))"
| "parse_calls 0 f ts = None"
| "parse_calls (Suc n) f ts =
     (if take 2 ts = [T_sym ''('', T_sym '')''] then parse_calls n (Call f [] []) (drop 2 ts)
      else if take 1 ts = [T_sym ''(''] then
        (case closing (parse_args n (drop 1 ts)) of
           None \<Rightarrow> None
         | Some (as, t1) \<Rightarrow> parse_calls n (Call f as []) t1)
      else Some (f, ts))"
| "parse_args 0 ts = None"
| "parse_args (Suc n) ts =
     (case parse_level n 0 ts of
        None \<Rightarrow> None
      | Some (e, t1) \<Rightarrow>
          if take 1 t1 = [T_sym '','']
          then (case parse_args n (drop 1 t1) of
                  None \<Rightarrow> None
                | Some (es, t2) \<Rightarrow> Some (e # es, t2))
          else Some ([e], t1))"
  by pat_completeness auto
termination
  by (relation "measure (case_sum
        (case_sum (\<lambda>(n, lvl, ts). n) (\<lambda>(n, lvl, ts). n))
        (case_sum (\<lambda>(n, f, ts). n) (\<lambda>(n, ts). n)))")
    auto

definition parse_fragment :: "string \<Rightarrow> expr option" where
  "parse_fragment s =
     (if s = [] \<or> hd s = CHR '' '' \<or> last s = CHR '' '' then None
      else (case tokenize s of
              None \<Rightarrow> None
            | Some ts \<Rightarrow>
                (case parse_level (10 * length ts + 10) 0 ts of
                   Some (e, []) \<Rightarrow> Some e
                 | _ \<Rightarrow> None)))"

definition ast_parse_fragment :: "string \<Rightarrow> error + expr" where
  "ast_parse_fragment s = (case parse_fragment s of Some e \<Rightarrow> Inr e | None \<Rightarrow> Inl NotModelled)"

definition full_env :: "pydict \<Rightarrow> pydict" where
  "full_env env = dict_merge ALLOWED_FUNCS env"

definition safe_eval_tree :: "expr \<Rightarrow> pydict \<Rightarrow> error + bool" where
  "safe_eval_tree body env0 =
     (let env = guard_none_comparisons env0 in
      case validate_nodes (ast_walk (Expression body)) of
        Inl e \<Rightarrow> Inl e
      | Inr u \<Rightarrow>
          (case py_eval (full_env env) body of
             Inl e \<Rightarrow> Inl e
           | Inr v \<Rightarrow> Inr (truthy v)))"

definition safe_eval_expr ::
  "(string \<Rightarrow> error + expr) \<Rightarrow> string \<Rightarrow> pydict \<Rightarrow> (error + bool) option" where
  "safe_eval_expr ast_parse expr env =
     (case rewrite_implies expr of
        None \<Rightarrow> None
      | Some expr' \<Rightarrow>
          Some (case ast_parse expr' of
                  Inl e \<Rightarrow> Inl e
                | Inr body \<Rightarrow> safe_eval_tree body env))"

section \<open>Properties of the rewriter\<close>

subsection \<open>The matcher finds exactly the matches of the pattern\<close>

lemma spaces_then_sound:
  "spaces_then k j xs = Some r \<Longrightarrow> \<exists>i. 0 < i \<and> i \<le> j \<and> k (drop i xs) = Some r"
proof (induction j)
  case 0
  then show ?case by simp
next
  case (Suc j)
  show ?case
  proof (cases "k (drop (Suc j) xs)")
    case None
    with Suc.prems have "spaces_then k j xs = Some r" by simp
    with Suc.IH obtain i where "0 < i" "i \<le> j" "k (drop i xs) = Some r" by blast
    then show ?thesis by (intro exI [of _ i]) simp
  next
    case (Some a)
    with Suc.prems have "k (drop (Suc j) xs) = Some r" by simp
    then show ?thesis by (intro exI [of _ "Suc j"]) simp
  qed
qed

lemma take_run:
  "i \<le> length (takeWhile P xs) \<Longrightarrow> list_all P (take i xs)"
proof (induction xs arbitrary: i)
  case Nil
  then show ?case by simp
next
  case (Cons x xs)
  then show ?case by (cases i) (auto split: if_splits)
qed

lemma match_spaces_sound:
  assumes "match_spaces k xs = Some r"
  shows "\<exists>w ys. xs = w @ ys \<and> w \<noteq> [] \<and> list_all is_space w \<and> k ys = Some r"
proof -
  from assms have "spaces_then k (length (takeWhile is_space xs)) xs = Some r"
    by (simp add: match_spaces_def)
  from spaces_then_sound [OF this]
  obtain i where i: "0 < i" "i \<le> length (takeWhile is_space xs)" "k (drop i xs) = Some r"
    by (elim exE conjE)
  have "i \<le> length xs" using i(2) length_takeWhile_le [of is_space xs] by linarith
  with i(1) have ne: "take i xs \<noteq> []" by auto
  have "xs = take i xs @ drop i xs" by simp
  with ne take_run [OF i(2)] i(3) show ?thesis
    by (intro exI [of _ "take i xs"] exI [of _ "drop i xs"]) simp
qed

lemma match_literal_sound:
  "match_literal lit k xs = Some r \<Longrightarrow> \<exists>ys. xs = lit @ ys \<and> k ys = Some r"
proof -
  assume a: "match_literal lit k xs = Some r"
  then have t: "take (length lit) xs = lit" and k: "k (drop (length lit) xs) = Some r"
    by (auto simp: match_literal_def split: if_splits)
  from t append_take_drop_id [of "length lit" xs] have "xs = lit @ drop (length lit) xs"
    by simp
  with k show ?thesis by (intro exI [of _ "drop (length lit) xs"]) simp
qed

lemma match_dots_greedy_sound:
  "match_dots_greedy xs = Some (g, post) \<Longrightarrow> xs = g @ post \<and> g \<noteq> [] \<and> list_all is_dot g"
  unfolding match_dots_greedy_def
  by (auto split: if_splits simp: list_all_iff dest: set_takeWhileD)

lemma match_dots_lazy_sound:
  "match_dots_lazy k g xs = Some (g', r) \<Longrightarrow>
     \<exists>h ys. xs = h @ ys \<and> h \<noteq> [] \<and> list_all is_dot h \<and> g' = g @ h \<and> k ys = Some r"
proof (induction xs arbitrary: g)
  case Nil
  then show ?case by simp
next
  case (Cons c xs)
  from Cons.prems have dot: "is_dot c" by (simp split: if_splits)
  show ?case
  proof (cases "k xs")
    case None
    with Cons.prems dot have "match_dots_lazy k (g @ [c]) xs = Some (g', r)" by simp
    from Cons.IH [OF this] obtain h ys where
      h: "xs = h @ ys" "list_all is_dot h" "g' = (g @ [c]) @ h" "k ys = Some r"
      by (elim exE conjE)
    show ?thesis
      by (rule exI [of _ "c # h"], rule exI [of _ ys]) (use h dot in simp)
  next
    case (Some a)
    with Cons.prems dot have "g' = g @ [c]" "k xs = Some r" by simp_all
    then show ?thesis
      by (intro exI [of _ "[c]"] exI [of _ xs]) (use dot in simp)
  qed
qed

lemma match_here_sound:
  assumes "match_here xs = Some (g1, g2, post)"
  shows "matched_by xs [] g1 g2 post"
proof -
  let ?k3 = "match_spaces match_dots_greedy"
  let ?k2 = "match_literal ''implies'' ?k3"
  let ?k1 = "match_spaces ?k2"
  from assms have "match_dots_lazy ?k1 [] xs = Some (g1, g2, post)"
    by (simp add: match_here_def)
  from match_dots_lazy_sound [OF this] obtain h ys where
    h: "xs = h @ ys" "h \<noteq> []" "list_all is_dot h" "g1 = [] @ h" "?k1 ys = Some (g2, post)"
    by (elim exE conjE)
  from match_spaces_sound [OF h(5)] obtain w1 zs where
    w1: "ys = w1 @ zs" "w1 \<noteq> []" "list_all is_space w1" "?k2 zs = Some (g2, post)"
    by (elim exE conjE)
  from match_literal_sound [OF w1(4)] obtain us where
    us: "zs = ''implies'' @ us" "?k3 us = Some (g2, post)" by (elim exE conjE)
  from match_spaces_sound [OF us(2)] obtain w2 vs where
    w2: "us = w2 @ vs" "w2 \<noteq> []" "list_all is_space w2" "match_dots_greedy vs = Some (g2, post)"
    by (elim exE conjE)
  from match_dots_greedy_sound [OF w2(4)]
  have vs: "vs = g2 @ post" "g2 \<noteq> []" "list_all is_dot g2" by simp_all
  have "xs = [] @ g1 @ w1 @ ''implies'' @ w2 @ g2 @ post"
    using h(1,4) w1(1) us(1) w2(1) vs(1) by simp
  with h(2,3,4) vs(2,3) w1(2,3) w2(2,3) show ?thesis
    unfolding matched_by_def by (intro exI [of _ w1] exI [of _ w2]) simp
qed

lemma matched_by_shift: "matched_by xs [] g1 g2 post \<Longrightarrow> matched_by (pre @ xs) pre g1 g2 post"
  unfolding matched_by_def by auto

lemma search_from_sound:
  "search_from pre xs = Some (p, g1, g2, post) \<Longrightarrow> matched_by (pre @ xs) p g1 g2 post"
proof (induction xs arbitrary: pre)
  case Nil
  then show ?case
    by (simp add: match_here_def split: option.splits)
next
  case (Cons c xs)
  show ?case
  proof (cases "match_here (c # xs)")
    case None
    with Cons.prems have "search_from (pre @ [c]) xs = Some (p, g1, g2, post)" by simp
    from Cons.IH [OF this] show ?thesis by simp
  next
    case (Some m)
    with Cons.prems have "match_here (c # xs) = Some (g1, g2, post)" and "p = pre"
      by (auto split: prod.splits)
    with matched_by_shift [OF match_here_sound, of "c # xs" g1 g2 post pre] show ?thesis
      by simp
  qed
qed

lemma re_search_sound:
  assumes "re_search e = Some (p, g1, g2, post)"
  shows "matched_by e p g1 g2 post"
  using search_from_sound [of "[]" e p g1 g2 post] assms by (simp add: re_search_def)

lemma count_spaces_append: "count_spaces (xs @ ys) = count_spaces xs + count_spaces ys"
  by (simp add: count_spaces_def)

lemma count_spaces_all: "list_all is_space w \<Longrightarrow> count_spaces w = length w"
  by (induction w) (simp_all add: count_spaces_def)

lemma re_sub_first_fewer_spaces:
  assumes "re_search e \<noteq> None"
  shows "count_spaces (re_sub_first e) < count_spaces e"
proof -
  from assms obtain p g1 g2 post where m: "re_search e = Some (p, g1, g2, post)"
    by (cases "re_search e") auto
  from re_search_sound [OF m] obtain w1 w2 where
    e: "e = p @ g1 @ w1 @ ''implies'' @ w2 @ g2 @ post"
    and w: "w1 \<noteq> []" "list_all is_space w1" "w2 \<noteq> []" "list_all is_space w2"
    unfolding matched_by_def by (elim exE conjE)
  have kw: "count_spaces ''implies'' = 0" "count_spaces ''implies('' = 0"
    "count_spaces '')'' = 0" "count_spaces '', '' = 1"
    by (simp_all add: count_spaces_def is_space_def)
  have l: "0 < length w1" "0 < length w2" using w by simp_all
  have new: "count_spaces (re_sub_first e) = count_spaces p + count_spaces g1 + 1 + count_spaces g2 + count_spaces post"
    by (simp add: re_sub_first_def m count_spaces_append kw del: append.simps)
  have "count_spaces e = count_spaces p + count_spaces g1 + length w1 + length w2 + count_spaces g2 + count_spaces post"
    by (subst e) (simp add: count_spaces_append kw count_spaces_all w del: append.simps)
  with new l show ?thesis by linarith
qed

lemma rewrite_implies_total_aux:
  "\<exists>r. rewrite_implies e = Some r \<and> re_search r = None"
proof (induction e rule: measure_induct_rule [of count_spaces])
  case (less e)
  show ?case
  proof (cases "re_search e = None")
    case True
    then show ?thesis by (subst rewrite_implies.simps) simp
  next
    case False
    from less [OF re_sub_first_fewer_spaces [OF False]] obtain r where
      "rewrite_implies (re_sub_first e) = Some r" "re_search r = None" by (elim exE conjE)
    with False show ?thesis by (subst rewrite_implies.simps) simp
  qed
qed

lemma spaces_then_complete:
  "0 < i \<Longrightarrow> i \<le> j \<Longrightarrow> k (drop i xs) \<noteq> None \<Longrightarrow> spaces_then k j xs \<noteq> None"
proof (induction j)
  case 0
  then show ?case by simp
next
  case (Suc j)
  show ?case
  proof (cases "i = Suc j")
    case True
    with Suc.prems(3) show ?thesis by (auto split: option.splits)
  next
    case False
    with Suc.prems have "i \<le> j" by simp
    with Suc.IH Suc.prems have "spaces_then k j xs \<noteq> None" by simp
    then show ?thesis by (simp split: option.splits)
  qed
qed

lemma run_covers: "list_all is_space w \<Longrightarrow> length w \<le> length (takeWhile is_space (w @ ys))"
  by (induction w) simp_all

lemma match_spaces_complete:
  assumes "w \<noteq> []" and "list_all is_space w" and "k ys \<noteq> None"
  shows "match_spaces k (w @ ys) \<noteq> None"
proof -
  have "spaces_then k (length (takeWhile is_space (w @ ys))) (w @ ys) \<noteq> None"
  proof (rule spaces_then_complete [where i = "length w"])
    show "0 < length w" using assms(1) by simp
    show "length w \<le> length (takeWhile is_space (w @ ys))" by (rule run_covers [OF assms(2)])
    show "k (drop (length w) (w @ ys)) \<noteq> None" using assms(3) by simp
  qed
  then show ?thesis by (simp add: match_spaces_def)
qed

lemma match_literal_complete: "k ys \<noteq> None \<Longrightarrow> match_literal lit k (lit @ ys) \<noteq> None"
  by (simp add: match_literal_def)

lemma match_dots_greedy_complete: "is_dot g \<Longrightarrow> match_dots_greedy (g # post) \<noteq> None"
  by (simp add: match_dots_greedy_def)

lemma match_dots_lazy_complete:
  "is_dot l \<Longrightarrow> k ys \<noteq> None \<Longrightarrow> match_dots_lazy k g0 (l # ys) \<noteq> None"
  by (auto split: option.splits)

lemma match_here_complete:
  assumes "is_dot l" "is_dot g" "w1 \<noteq> []" "list_all is_space w1" "w2 \<noteq> []" "list_all is_space w2"
  shows "match_here (l # w1 @ ''implies'' @ w2 @ g # post) \<noteq> None"
proof -
  let ?k3 = "match_spaces match_dots_greedy"
  let ?k2 = "match_literal ''implies'' ?k3"
  let ?k1 = "match_spaces ?k2"
  have a: "match_dots_greedy (g # post) \<noteq> None"
    by (rule match_dots_greedy_complete [OF assms(2)])
  have b: "?k3 (w2 @ g # post) \<noteq> None"
    using match_spaces_complete [of w2 match_dots_greedy "g # post"] assms(5,6) a by simp
  have c: "?k2 (''implies'' @ w2 @ g # post) \<noteq> None"
    using match_literal_complete [of ?k3 "w2 @ g # post" "''implies''"] b by simp
  have d: "?k1 (w1 @ ''implies'' @ w2 @ g # post) \<noteq> None"
    using match_spaces_complete [of w1 ?k2 "''implies'' @ w2 @ g # post"] assms(3,4) c by simp
  show ?thesis
    unfolding match_here_def
    using match_dots_lazy_complete [of l ?k1 "w1 @ ''implies'' @ w2 @ g # post" "[]"] assms(1) d
    by simp
qed

lemma search_from_complete:
  "match_here xs \<noteq> None \<Longrightarrow> search_from p (pre @ xs) \<noteq> None"
proof (induction pre arbitrary: p)
  case Nil
  then show ?case by (cases xs) (auto split: option.splits)
next
  case (Cons c pre)
  then show ?case by (auto split: option.splits)
qed

lemma re_search_iff: "re_search e \<noteq> None \<longleftrightarrow> infix_implies_in e"
proof
  assume "re_search e \<noteq> None"
  then obtain p g1 g2 post where "re_search e = Some (p, g1, g2, post)"
    by (cases "re_search e") auto
  from re_search_sound [OF this] obtain w1 w2 where
    e: "e = p @ g1 @ w1 @ ''implies'' @ w2 @ g2 @ post"
    and g: "g1 \<noteq> []" "list_all is_dot g1" "g2 \<noteq> []" "list_all is_dot g2"
    and w: "w1 \<noteq> []" "list_all is_space w1" "w2 \<noteq> []" "list_all is_space w2"
    unfolding matched_by_def by (elim exE conjE)
  from g(1,2) obtain a l where g1: "g1 = a @ [l]" "is_dot l"
    by (cases g1 rule: rev_cases) auto
  from g(3,4) obtain g b where g2: "g2 = g # b" "is_dot g"
    by (cases g2) auto
  have "e = (p @ a) @ [l] @ w1 @ ''implies'' @ w2 @ [g] @ (b @ post)"
    using e g1(1) g2(1) by simp
  with g1(2) g2(2) w show "infix_implies_in e"
    unfolding infix_implies_in_def
    by (intro exI [of _ "p @ a"] exI [of _ l] exI [of _ w1] exI [of _ w2] exI [of _ g]
        exI [of _ "b @ post"]) simp
next
  assume "infix_implies_in e"
  then obtain pre l w1 w2 g post where
    e: "e = pre @ [l] @ w1 @ ''implies'' @ w2 @ [g] @ post"
    and h: "is_dot l" "is_dot g" "w1 \<noteq> []" "list_all is_space w1" "w2 \<noteq> []" "list_all is_space w2"
    unfolding infix_implies_in_def by (elim exE conjE)
  from match_here_complete [OF h, of post]
  have "search_from [] (pre @ l # w1 @ ''implies'' @ w2 @ g # post) \<noteq> None"
    by (rule search_from_complete)
  then show "re_search e \<noteq> None"
    by (simp add: re_search_def e)
qed

subsection \<open>The claims about the rewriter\<close>

text \<open>
  C9. For every input string the find-and-replace loop of \<open>rewrite_implies\<close> ends and
  returns a string (the function raises nothing: the model has no error to return), and
  an input the pattern does not match is returned unchanged. Each replacement removes at
  least two white-space characters and adds one, which bounds the number of rounds.
\<close>

theorem rewrite_implies_terminates:
  "(\<exists>r. rewrite_implies e = Some r) \<and> (re_search e = None \<longrightarrow> rewrite_implies e = Some e)"
proof
  from rewrite_implies_total_aux [of e] show "\<exists>r. rewrite_implies e = Some r"
    by (elim exE conjE) (rule exI)
  show "re_search e = None \<longrightarrow> rewrite_implies e = Some e"
    by (subst rewrite_implies.simps) simp
qed

theorem rewrite_implies_terminates_witness:
  "re_search ''max(n, m) > 10'' = None
   \<and> rewrite_implies ''max(n, m) > 10'' = Some ''max(n, m) > 10''
   \<and> (\<exists>r. rewrite_implies ''is_connected implies diameter <= 3'' = Some r)"
proof -
  have h: "re_search ''max(n, m) > 10'' = None" by code_simp
  from rewrite_implies_terminates [of "''max(n, m) > 10''"] h
    rewrite_implies_terminates [of "''is_connected implies diameter <= 3''"]
  show ?thesis by simp
qed

text \<open>
  A word \<^verbatim>\<open>implies\<close> with no operand on one side is not an infix use: the pattern
  does not match it and the loop leaves it where it is.
\<close>

lemma rewrite_implies_one_sided:
  "rewrite_implies ''A implies'' = Some ''A implies''"
  "rewrite_implies ''implies B'' = Some ''implies B''"
  by code_simp+

text \<open>
  C7, as amended. For every input string the text \<open>rewrite_implies\<close> returns has no
  match of the pattern left: nowhere in it does the word \<^verbatim>\<open>implies\<close> stand with white
  space directly before and after it, a character of a left operand before that white
  space and a character of a right operand after it (an operand character is any
  character but the line feed). A keyword that lacks the white space or the operand on
  one side can remain.
\<close>

theorem rewrite_implies_leaves_no_infix:
  "\<exists>r. rewrite_implies e = Some r \<and> re_search r = None \<and> \<not> infix_implies_in r"
proof -
  from rewrite_implies_total_aux [of e] obtain r where
    r: "rewrite_implies e = Some r" "re_search r = None" by (elim exE conjE)
  from r(2) re_search_iff [of r] have "\<not> infix_implies_in r" by simp
  with r show ?thesis by (intro exI [of _ r]) simp
qed

text \<open>
  C7 as stated fails: the loop ends when the pattern has no match, and the pattern asks
  for white space and an operand on both sides of the word. In
  \<^verbatim>\<open>A implies B implies\<close> the second keyword has no right operand: the text returned
  is \<^verbatim>\<open>implies(A, B implies)\<close>, which still holds the bare keyword. \<^verbatim>\<open>A implies\<close>
  is returned as it is, and so is \<^verbatim>\<open>(A) implies(B)\<close>, where no white space follows
  the keyword between its two operands.
\<close>

theorem rewrite_implies_leaves_bare_keyword:
  "rewrite_implies ''A implies B implies'' = Some ''implies(A, B implies)''
   \<and> bare_implies_in ''implies(A, B implies)''
   \<and> rewrite_implies ''A implies'' = Some ''A implies''
   \<and> bare_implies_in ''A implies''
   \<and> rewrite_implies ''(A) implies(B)'' = Some ''(A) implies(B)''
   \<and> \<not> bare_implies_in ''implies(A, B)''"
  by code_simp

text \<open>
  C8. Idempotence: rewriting the output of the rewriter changes nothing, because the
  output has no match of the pattern.
\<close>

theorem rewrite_implies_idempotent:
  "\<exists>r. rewrite_implies e = Some r \<and> rewrite_implies r = Some r"
proof -
  from rewrite_implies_total_aux [of e] obtain r where
    r: "rewrite_implies e = Some r" "re_search r = None" by (elim exE conjE)
  from r(2) have "rewrite_implies r = Some r"
    by (subst rewrite_implies.simps) simp
  with r(1) show ?thesis by (intro exI [of _ r]) simp
qed

text \<open>
  C2, on the code. The claim is that \<^verbatim>\<open>A implies B implies C\<close> is rewritten to
  \<^verbatim>\<open>implies(A, implies(B, C))\<close>. The first round gives \<^verbatim>\<open>implies(A, B implies C)\<close>,
  as claimed. In the second round the search starts again at the first character of the
  text, so group 1 is \<^verbatim>\<open>implies(A, B\<close> and the result is
  \<^verbatim>\<open>implies(implies(A, B, C))\<close>: one call of \<^verbatim>\<open>implies\<close> with three arguments inside
  a call with one. So the evaluation of \<^verbatim>\<open>n implies m implies is_connected\<close> does
  not return \<^verbatim>\<open>True\<close>: it calls \<^verbatim>\<open>implies\<close> with three arguments, a
  \<^verbatim>\<open>TypeError\<close>.
\<close>

theorem rewrite_implies_chain:
  "re_sub_first ''A implies B implies C'' = ''implies(A, B implies C)''
   \<and> re_search ''implies(A, B implies C)'' = Some ([], ''implies(A, B'', ''C)'', [])
   \<and> rewrite_implies ''A implies B implies C'' = Some ''implies(implies(A, B, C))''
   \<and> rewrite_implies ''A implies B implies C'' \<noteq> Some ''implies(A, implies(B, C))''
   \<and> rewrite_implies ''n implies m implies is_connected''
       = Some ''implies(implies(n, m, is_connected))''
   \<and> ast_parse_fragment ''implies(implies(n, m, is_connected))''
       = Inr (Call (Name ''implies'' Load)
           [Call (Name ''implies'' Load)
              [Name ''n'' Load, Name ''m'' Load, Name ''is_connected'' Load] []] [])
   \<and> safe_eval_expr ast_parse_fragment ''n implies m implies is_connected''
         [(''n'', VInt 1), (''m'', VInt 0), (''is_connected'', VBool True)]
       = Some (Inl TypeError)"
  by code_simp

section \<open>Properties of the guarded environment\<close>

lemma dict_keys_simps [simp]:
  "dict_keys [] = []" "dict_keys (kv # d) = fst kv # dict_keys d"
  by (simp_all add: dict_keys_def)

lemma map_of_dict_set: "map_of (dict_set k v d) = (map_of d)(k \<mapsto> v)"
  by (induction d) (auto simp: fun_eq_iff)

lemma keys_dict_set: "set (dict_keys (dict_set k v d)) = insert k (set (dict_keys d))"
  by (induction k v d rule: dict_set.induct) (simp_all add: dict_keys_def insert_commute)

lemma distinct_dict_set: "distinct (dict_keys d) \<Longrightarrow> distinct (dict_keys (dict_set k v d))"
proof (induction k v d rule: dict_set.induct)
  case (1 k v)
  then show ?case by (simp add: dict_keys_def)
next
  case (2 k v k' v' d)
  from "2.prems" have d: "k' \<notin> set (dict_keys d)" "distinct (dict_keys d)"
    by (simp_all add: dict_keys_def)
  show ?case
  proof (cases "k' = k")
    case True
    with d show ?thesis by (simp add: dict_keys_def)
  next
    case False
    from "2.IH" [OF False d(2)] have "distinct (dict_keys (dict_set k v d))" .
    moreover from d(1) False have "k' \<notin> set (dict_keys (dict_set k v d))"
      by (simp add: keys_dict_set)
    ultimately show ?thesis using False by (simp add: dict_keys_def)
  qed
qed

lemma map_of_guard_item:
  "map_of (guard_item (k, v) out) =
     (if v = VNone then (map_of out)(flag_key k \<mapsto> VBool True, k \<mapsto> VNaN)
      else (map_of out)(flag_key k \<mapsto> VBool False))"
  by (simp add: guard_item_def Let_def map_of_dict_set flag_key_def)

lemma keys_guard_item:
  "set (dict_keys (guard_item (k, v) out)) =
     (if v = VNone then insert k (insert (flag_key k) (set (dict_keys out)))
      else insert (flag_key k) (set (dict_keys out)))"
  by (simp add: guard_item_def Let_def keys_dict_set flag_key_def)

lemma distinct_guard_item:
  "distinct (dict_keys out) \<Longrightarrow> distinct (dict_keys (guard_item kv out))"
  by (simp add: guard_item_def Let_def distinct_dict_set)

lemma keys_guard_fold:
  "set (dict_keys items) \<subseteq> set (dict_keys out) \<Longrightarrow>
   set (dict_keys (fold guard_item items out)) =
     set (dict_keys out) \<union> flag_key ` set (dict_keys items)"
proof (induction items arbitrary: out)
  case Nil
  then show ?case by simp
next
  case (Cons kv items)
  obtain k v where kv: "kv = (k, v)" by (cases kv)
  from Cons.prems kv have k: "k \<in> set (dict_keys out)"
    and sub: "set (dict_keys items) \<subseteq> set (dict_keys out)"
    by (simp_all add: dict_keys_def)
  have keys: "set (dict_keys (guard_item (k, v) out)) = insert (flag_key k) (set (dict_keys out))"
    using k by (simp add: keys_guard_item insert_absorb)
  with sub have "set (dict_keys items) \<subseteq> set (dict_keys (guard_item (k, v) out))" by blast
  from Cons.IH [OF this] keys
  have "set (dict_keys (fold guard_item items (guard_item (k, v) out))) =
      insert (flag_key k) (set (dict_keys out)) \<union> flag_key ` set (dict_keys items)" by simp
  also have "\<dots> = set (dict_keys out) \<union> flag_key ` set (dict_keys (kv # items))"
    by (simp add: kv dict_keys_def)
  finally show ?case by (simp add: kv)
qed

lemma distinct_guard_fold:
  "distinct (dict_keys out) \<Longrightarrow> distinct (dict_keys (fold guard_item items out))"
  by (induction items arbitrary: out) (simp_all add: distinct_guard_item)

lemma flag_key_inj: "flag_key a = flag_key b \<longleftrightarrow> a = b"
  by (simp add: flag_key_def)

lemma flag_key_neq: "flag_key a \<noteq> a"
  by (simp add: flag_key_def)

lemma guard_fold_other:
  "x \<notin> set (dict_keys items) \<Longrightarrow> x \<notin> flag_key ` set (dict_keys items) \<Longrightarrow>
   map_of (fold guard_item items out) x = map_of out x"
proof (induction items arbitrary: out)
  case Nil
  then show ?case by simp
next
  case (Cons kv items)
  obtain k v where kv: "kv = (k, v)" by (cases kv)
  from Cons.prems kv have x: "x \<noteq> k" "x \<noteq> flag_key k"
    "x \<notin> set (dict_keys items)" "x \<notin> flag_key ` set (dict_keys items)"
    by (auto simp: dict_keys_def)
  have "map_of (fold guard_item items (guard_item (k, v) out)) x = map_of (guard_item (k, v) out) x"
    by (rule Cons.IH [OF x(3,4)])
  also have "\<dots> = map_of out x" using x(1,2) by (simp add: map_of_guard_item)
  finally show ?case by (simp add: kv)
qed

lemma guard_fold_item:
  assumes "distinct (dict_keys items)" and "no_flag_collision (dict_keys items)"
    and "(k, v) \<in> set items"
  shows "map_of (fold guard_item items out) (flag_key k) = Some (VBool (v = VNone))
       \<and> map_of (fold guard_item items out) k = (if v = VNone then Some VNaN else map_of out k)"
  using assms
proof (induction items arbitrary: out)
  case Nil
  then show ?case by simp
next
  case (Cons kv items)
  obtain k0 v0 where kv: "kv = (k0, v0)" by (cases kv)
  from Cons.prems(1) kv have d: "k0 \<notin> set (dict_keys items)" "distinct (dict_keys items)"
    by (simp_all add: dict_keys_def)
  from Cons.prems(2) kv have nc: "no_flag_collision (dict_keys items)"
    and nc0: "flag_key k0 \<notin> set (dict_keys items)"
    and nc1: "\<forall>k' \<in> set (dict_keys items). flag_key k' \<noteq> k0"
    unfolding no_flag_collision_def by (auto simp: dict_keys_def)
  let ?out = "guard_item (k0, v0) out"
  show ?case
  proof (cases "(k, v) \<in> set items")
    case True
    then have kin: "k \<in> set (dict_keys items)" by (force simp: dict_keys_def)
    from kin d(1) have ne: "k \<noteq> k0" by auto
    from kin nc0 have ne2: "k \<noteq> flag_key k0" by auto
    from Cons.IH [OF d(2) nc True, of ?out]
    show ?thesis using ne ne2 by (simp add: kv map_of_guard_item)
  next
    case False
    with Cons.prems(3) kv have eq: "k = k0" "v = v0" by auto
    have a: "flag_key k0 \<notin> flag_key ` set (dict_keys items)" using d(1) by (auto simp: flag_key_inj)
    have b: "k0 \<notin> flag_key ` set (dict_keys items)" using nc1 by auto
    have "map_of (fold guard_item items ?out) (flag_key k0) = map_of ?out (flag_key k0)"
      by (rule guard_fold_other [OF nc0 a])
    moreover have "map_of (fold guard_item items ?out) k0 = map_of ?out k0"
      by (rule guard_fold_other [OF d(1) b])
    ultimately show ?thesis
      using flag_key_neq [of k0] by (simp add: kv eq map_of_guard_item)
  qed
qed

lemma map_of_dict_merge:
  "distinct (dict_keys b) \<Longrightarrow> map_of (dict_merge a b) = map_of a ++ map_of b"
  unfolding dict_merge_def
proof (induction b arbitrary: a)
  case Nil
  then show ?case by simp
next
  case (Cons kv b)
  obtain k v where kv: "kv = (k, v)" by (cases kv)
  from Cons.prems kv have d: "k \<notin> set (dict_keys b)" "distinct (dict_keys b)" by simp_all
  from d(1) have nk: "map_of b k = None"
    by (simp add: map_of_eq_None_iff dict_keys_def)
  let ?f = "\<lambda>(k, v) d. dict_set k v d"
  have "map_of (fold ?f b (dict_set k v a)) = map_of (dict_set k v a) ++ map_of b"
    by (rule Cons.IH [OF d(2)])
  also have "\<dots> = (map_of a ++ map_of b)(k \<mapsto> v)"
    using nk by (auto simp: map_of_dict_set fun_eq_iff map_add_def split: option.splits)
  finally have calc: "map_of (fold ?f b (dict_set k v a)) = (map_of a ++ map_of b)(k \<mapsto> v)" .
  have lhs: "fold ?f (kv # b) a = fold ?f b (dict_set k v a)" by (simp add: kv)
  have rhs: "map_of a ++ map_of (kv # b) = (map_of a ++ map_of b)(k \<mapsto> v)" by (simp add: kv)
  show ?case unfolding lhs rhs by (rule calc)
qed

lemma guard_keys:
  "set (dict_keys (guard_none_comparisons env)) = set (dict_keys env) \<union> flag_key ` set (dict_keys env)"
  unfolding guard_none_comparisons_def by (rule keys_guard_fold) simp

lemma guard_distinct:
  "distinct (dict_keys env) \<Longrightarrow> distinct (dict_keys (guard_none_comparisons env))"
  unfolding guard_none_comparisons_def by (rule distinct_guard_fold)

lemma guard_values:
  assumes "distinct (dict_keys env)" and "no_flag_collision (dict_keys env)" and "(k, v) \<in> set env"
  shows "dict_get (guard_none_comparisons env) (flag_key k) = Some (VBool (v = VNone))"
    and "dict_get (guard_none_comparisons env) k = Some (if v = VNone then VNaN else v)"
proof -
  from assms(1,3) have "map_of env k = Some v" by (simp add: dict_keys_def)
  with guard_fold_item [OF assms, of env]
  show "dict_get (guard_none_comparisons env) (flag_key k) = Some (VBool (v = VNone))"
    and "dict_get (guard_none_comparisons env) k = Some (if v = VNone then VNaN else v)"
    by (simp_all add: guard_none_comparisons_def dict_get_def)
qed

lemma full_env_get:
  "distinct (dict_keys env) \<Longrightarrow>
   dict_get (full_env env) x = (case dict_get env x of Some v \<Rightarrow> Some v | None \<Rightarrow> dict_get ALLOWED_FUNCS x)"
  by (simp add: full_env_def dict_get_def map_of_dict_merge map_add_def split: option.splits)

lemma nan_order:
  "op \<in> {Lt, LtE, Gt, GtE, Eq} \<Longrightarrow> as_number b \<noteq> None \<Longrightarrow> py_compare op VNaN b = Inr (VBool False)"
  by (cases b) (auto simp: py_order_def py_eq_def)

subsection \<open>The claims about the guarded environment\<close>

text \<open>
  C5, as amended. For every bindings map the keys of the guarded environment are the
  original keys and the companion key \<open>k_is_none\<close> of every original key \<open>k\<close>. When
  no key of the bindings is the companion key of another key, then for every original
  item \<open>(k, v)\<close> the value under \<open>k_is_none\<close> is the boolean "\<open>v\<close> is \<^verbatim>\<open>None\<close>",
  the value under \<open>k\<close> is not-a-number exactly when \<open>v\<close> is \<^verbatim>\<open>None\<close> and is \<open>v\<close>
  otherwise, and for a \<open>v\<close> that is \<^verbatim>\<open>None\<close> an order comparison of \<open>k\<close> with a
  number evaluates to \<^verbatim>\<open>False\<close> and raises nothing.
\<close>

theorem guard_none_comparisons_invariant:
  "set (dict_keys (guard_none_comparisons env)) =
     set (dict_keys env) \<union> flag_key ` set (dict_keys env)
   \<and> (distinct (dict_keys env) \<and> no_flag_collision (dict_keys env) \<longrightarrow>
       (\<forall>(k, v) \<in> set env.
          dict_get (guard_none_comparisons env) (flag_key k) = Some (VBool (v = VNone))
        \<and> dict_get (guard_none_comparisons env) k = Some (if v = VNone then VNaN else v)
        \<and> (v = VNone \<longrightarrow>
             (\<forall>op \<in> {Lt, LtE, Gt, GtE}. \<forall>b. as_number b \<noteq> None \<longrightarrow>
                py_eval (full_env (guard_none_comparisons env))
                  (Compare (Name k Load) [op] [Constant b]) = Inr (VBool False)))))"
proof (intro conjI impI)
  show "set (dict_keys (guard_none_comparisons env)) =
      set (dict_keys env) \<union> flag_key ` set (dict_keys env)"
    by (rule guard_keys)
next
  assume h: "distinct (dict_keys env) \<and> no_flag_collision (dict_keys env)"
  then have d: "distinct (dict_keys env)" and nc: "no_flag_collision (dict_keys env)"
    by simp_all
  let ?g = "guard_none_comparisons env"
  show "\<forall>(k, v) \<in> set env.
          dict_get ?g (flag_key k) = Some (VBool (v = VNone))
        \<and> dict_get ?g k = Some (if v = VNone then VNaN else v)
        \<and> (v = VNone \<longrightarrow>
             (\<forall>op \<in> {Lt, LtE, Gt, GtE}. \<forall>b. as_number b \<noteq> None \<longrightarrow>
                py_eval (full_env ?g) (Compare (Name k Load) [op] [Constant b])
                  = Inr (VBool False)))"
  proof (intro ballI, clarify, intro conjI impI ballI allI)
    fix k v
    assume kv: "(k, v) \<in> set env"
    show "dict_get ?g (flag_key k) = Some (VBool (v = VNone))"
      by (rule guard_values(1) [OF d nc kv])
    show "dict_get ?g k = Some (if v = VNone then VNaN else v)"
      by (rule guard_values(2) [OF d nc kv])
  next
    fix k v op b
    assume kv: "(k, v) \<in> set env" and v: "v = VNone"
      and op: "op \<in> {Lt, LtE, Gt, GtE}" and b: "as_number b \<noteq> None"
    from guard_values(2) [OF d nc kv] v have "dict_get ?g k = Some VNaN" by simp
    with full_env_get [OF guard_distinct [OF d], of k]
    have "lookup_name (full_env ?g) k = Inr VNaN"
      by (simp add: lookup_name_def)
    moreover from op b have "py_compare op VNaN b = Inr (VBool False)"
      by (intro nan_order) auto
    ultimately show "py_eval (full_env ?g) (Compare (Name k Load) [op] [Constant b])
        = Inr (VBool False)"
      by simp
  qed
qed

theorem guard_none_comparisons_invariant_witness:
  "dict_get (guard_none_comparisons [(''diameter'', VNone), (''n'', VInt 3)]) ''diameter_is_none''
     = Some (VBool True)
   \<and> dict_get (guard_none_comparisons [(''diameter'', VNone), (''n'', VInt 3)]) ''n_is_none''
     = Some (VBool False)
   \<and> dict_get (guard_none_comparisons [(''diameter'', VNone), (''n'', VInt 3)]) ''diameter''
     = Some VNaN
   \<and> dict_get (guard_none_comparisons [(''diameter'', VNone), (''n'', VInt 3)]) ''n''
     = Some (VInt 3)
   \<and> py_eval (full_env (guard_none_comparisons [(''diameter'', VNone), (''n'', VInt 3)]))
       (Compare (Name ''diameter'' Load) [LtE] [Constant (VInt 3)]) = Inr (VBool False)"
proof -
  let ?env = "[(''diameter'', VNone), (''n'', VInt 3)]"
  have h: "distinct (dict_keys ?env) \<and> no_flag_collision (dict_keys ?env)"
    by (simp add: no_flag_collision_def flag_key_def)
  from guard_none_comparisons_invariant [of ?env] h
  have "\<forall>(k, v) \<in> set ?env.
          dict_get (guard_none_comparisons ?env) (flag_key k) = Some (VBool (v = VNone))
        \<and> dict_get (guard_none_comparisons ?env) k = Some (if v = VNone then VNaN else v)
        \<and> (v = VNone \<longrightarrow>
             (\<forall>op \<in> {Lt, LtE, Gt, GtE}. \<forall>b. as_number b \<noteq> None \<longrightarrow>
                py_eval (full_env (guard_none_comparisons ?env))
                  (Compare (Name k Load) [op] [Constant b]) = Inr (VBool False)))"
    by blast
  then show ?thesis by (simp add: flag_key_def)
qed

text \<open>
  C5 as stated fails on bindings in which a key is the companion key of another key.
  The bindings \<^verbatim>\<open>{"a_is_none": None, "a": 1}\<close> have no repeated key; the original
  value of the key \<^verbatim>\<open>a_is_none\<close> is \<^verbatim>\<open>None\<close>, and in the guarded environment
  the value under \<^verbatim>\<open>a_is_none\<close> is not not-a-number: it is \<^verbatim>\<open>False\<close>, the flag of
  the key \<^verbatim>\<open>a\<close>, stored later in the same slot.
\<close>

theorem guard_none_comparisons_collision:
  "distinct (dict_keys [(''a_is_none'', VNone), (''a'', VInt 1)])
   \<and> dict_get [(''a_is_none'', VNone), (''a'', VInt 1)] ''a_is_none'' = Some VNone
   \<and> dict_get (guard_none_comparisons [(''a_is_none'', VNone), (''a'', VInt 1)]) ''a_is_none''
       = Some (VBool False)
   \<and> dict_get (guard_none_comparisons [(''a_is_none'', VNone), (''a'', VInt 1)]) ''a_is_none''
       \<noteq> Some VNaN"
  by (simp add: guard_none_comparisons_def guard_item_def dict_get_def)

section \<open>Properties of validation\<close>

subsection \<open>The walk and the loop\<close>

lemma set_walk_queue:
  "set (walk_queue todo) = set (concat (map subtree_nodes todo))"
proof (induction todo rule: walk_queue.induct)
  case 1
  then show ?case by simp
next
  case (2 node todo)
  have "set (walk_queue (node # todo)) = insert node (set (walk_queue (todo @ iter_child_nodes node)))"
    by simp
  also have "\<dots> = insert node (set (concat (map subtree_nodes (todo @ iter_child_nodes node))))"
    by (simp only: "2.IH")
  also have "\<dots> = set (subtree_nodes node) \<union> set (concat (map subtree_nodes todo))"
    by (subst subtree_nodes.simps) auto
  finally show ?case by simp
qed

lemma set_ast_walk: "set (ast_walk tree) = set (subtree_nodes tree)"
  unfolding ast_walk_def set_walk_queue by simp

lemma breaks_allowlist_iff: "breaks_allowlist n \<longleftrightarrow> validate_node n \<noteq> Inr ()"
proof (cases "class_name n \<in> set ALLOWED_NODES")
  case True
  then show ?thesis
    by (cases n rule: check_node.cases) (simp_all add: breaks_allowlist_def validate_node_def)
next
  case False
  then show ?thesis by (simp add: breaks_allowlist_def validate_node_def)
qed

lemma validate_node_error:
  "validate_node n = Inl e \<Longrightarrow> is_validation_error e"
  by (cases n rule: check_node.cases)
    (auto simp: validate_node_def is_validation_error_def split: if_splits)

lemma validate_nodes_ok:
  "validate_nodes ns = Inr () \<longleftrightarrow> (\<forall>n \<in> set ns. \<not> breaks_allowlist n)"
  by (induction ns) (auto simp: breaks_allowlist_iff split: sum.splits)

lemma validate_nodes_first:
  "(\<forall>n \<in> set pre. \<not> breaks_allowlist n) \<Longrightarrow> validate_node m = Inl e \<Longrightarrow>
   validate_nodes (pre @ m # post) = Inl e"
  by (induction pre) (auto simp: breaks_allowlist_iff split: sum.splits)

lemma validate_nodes_error:
  "validate_nodes ns = Inl e \<Longrightarrow> \<exists>m \<in> set ns. validate_node m = Inl e"
  by (induction ns) (auto split: sum.splits)

lemma validate_nodes_fails:
  assumes "n \<in> set ns" and "breaks_allowlist n"
  shows "\<exists>e. validate_nodes ns = Inl e"
proof (cases "validate_nodes ns")
  case (Inl e)
  then show ?thesis by simp
next
  case (Inr u)
  then have "validate_nodes ns = Inr ()" by simp
  with assms validate_nodes_ok [of ns] show ?thesis by blast
qed

lemma safe_eval_tree_rejected:
  "validate_nodes (ast_walk (Expression body)) = Inl e \<Longrightarrow> safe_eval_tree body env = Inl e"
  by (simp add: safe_eval_tree_def)

lemma safe_eval_tree_accepted:
  "validate_nodes (ast_walk (Expression body)) = Inr () \<Longrightarrow>
   safe_eval_tree body env =
     map_sum id truthy (py_eval (full_env (guard_none_comparisons env)) body)"
  by (simp add: safe_eval_tree_def split: sum.splits)

lemma safe_eval_expr_returns: "\<exists>r. safe_eval_expr ast_parse expr env = Some r"
proof -
  from rewrite_implies_total_aux [of expr] obtain e where "rewrite_implies expr = Some e"
    by (elim exE conjE)
  then show ?thesis by (simp add: safe_eval_expr_def)
qed

lemma safe_eval_expr_tree:
  "rewrite_implies expr = Some expr' \<Longrightarrow> ast_parse expr' = Inr body \<Longrightarrow>
   safe_eval_expr ast_parse expr env = Some (safe_eval_tree body env)"
  by (simp add: safe_eval_expr_def)

subsection \<open>The claims about validation\<close>

text \<open>
  C3. Validation is all or nothing and comes before evaluation. \<open>ast_walk\<close> yields
  every node of the tree. If any node of the tree breaks the allowlists, then for every
  bindings map the call returns one and the same validation error, the one of a node
  that breaks them: the outcome does not depend on the bindings or on what evaluating
  the tree would give, so nothing was evaluated. The same holds for \<open>safe_eval_expr\<close>
  on every expression text that parses to the tree. If no node breaks the allowlists, the
  outcome is the outcome of evaluating the whole tree.
\<close>

theorem validation_all_or_nothing:
  "set (ast_walk (Expression body)) = set (subtree_nodes (Expression body))
   \<and> ((\<exists>n \<in> set (subtree_nodes (Expression body)). breaks_allowlist n) \<longrightarrow>
        (\<exists>m \<in> set (subtree_nodes (Expression body)). \<exists>e.
            breaks_allowlist m \<and> validate_node m = Inl e \<and> is_validation_error e
          \<and> (\<forall>env. safe_eval_tree body env = Inl e)
          \<and> (\<forall>ast_parse expr env.
                (\<exists>expr'. rewrite_implies expr = Some expr' \<and> ast_parse expr' = Inr body)
                \<longrightarrow> safe_eval_expr ast_parse expr env = Some (Inl e))))
   \<and> ((\<forall>n \<in> set (subtree_nodes (Expression body)). \<not> breaks_allowlist n) \<longrightarrow>
        (\<forall>env. safe_eval_tree body env =
           map_sum id truthy (py_eval (full_env (guard_none_comparisons env)) body)))"
proof (intro conjI impI)
  show "set (ast_walk (Expression body)) = set (subtree_nodes (Expression body))"
    by (rule set_ast_walk)
next
  assume "\<exists>n \<in> set (subtree_nodes (Expression body)). breaks_allowlist n"
  then obtain n where n: "n \<in> set (ast_walk (Expression body))" "breaks_allowlist n"
    unfolding set_ast_walk by (elim bexE)
  from validate_nodes_fails [OF n] obtain e where
    e: "validate_nodes (ast_walk (Expression body)) = Inl e" by (elim exE)
  from validate_nodes_error [OF e] obtain m where
    m: "m \<in> set (ast_walk (Expression body))" "validate_node m = Inl e" by (elim bexE)
  from m(2) have b: "breaks_allowlist m" by (simp add: breaks_allowlist_iff)
  have v: "is_validation_error e" by (rule validate_node_error [OF m(2)])
  have t: "\<forall>env. safe_eval_tree body env = Inl e"
    by (simp add: safe_eval_tree_rejected [OF e])
  have s: "\<forall>ast_parse expr env.
      (\<exists>expr'. rewrite_implies expr = Some expr' \<and> ast_parse expr' = Inr body)
      \<longrightarrow> safe_eval_expr ast_parse expr env = Some (Inl e)"
    using t by (auto simp: safe_eval_expr_tree)
  from m(1) have m': "m \<in> set (subtree_nodes (Expression body))" by (simp add: set_ast_walk)
  show "\<exists>m \<in> set (subtree_nodes (Expression body)). \<exists>e.
            breaks_allowlist m \<and> validate_node m = Inl e \<and> is_validation_error e
          \<and> (\<forall>env. safe_eval_tree body env = Inl e)
          \<and> (\<forall>ast_parse expr env.
                (\<exists>expr'. rewrite_implies expr = Some expr' \<and> ast_parse expr' = Inr body)
                \<longrightarrow> safe_eval_expr ast_parse expr env = Some (Inl e))"
    by (rule bexI [OF _ m'], rule exI [of _ e]) (use b m(2) v t s in blast)
next
  assume "\<forall>n \<in> set (subtree_nodes (Expression body)). \<not> breaks_allowlist n"
  then have "validate_nodes (ast_walk (Expression body)) = Inr ()"
    by (simp add: validate_nodes_ok set_ast_walk)
  then show "\<forall>env. safe_eval_tree body env =
      map_sum id truthy (py_eval (full_env (guard_none_comparisons env)) body)"
    by (simp add: safe_eval_tree_accepted)
qed

text \<open>
  The witness: the tree of \<^verbatim>\<open>(lambda: 1)()\<close> is rejected, whatever the bindings;
  the tree of \<^verbatim>\<open>max(n, m) > 10\<close> passes and is evaluated.
\<close>

theorem validation_all_or_nothing_witness:
  "(\<exists>e. is_validation_error e
       \<and> (\<forall>env. safe_eval_tree
             (Call (OtherNode ''Lambda'' [OtherNode ''arguments'' [], Constant (VInt 1)]) [] [])
             env = Inl e))
   \<and> safe_eval_tree
       (Compare (Call (Name ''max'' Load) [Name ''n'' Load, Name ''m'' Load] []) [Gt]
          [Constant (VInt 10)])
       [(''n'', VInt 5), (''m'', VInt 12)] = Inr True"
proof -
  let ?bad = "Call (OtherNode ''Lambda'' [OtherNode ''arguments'' [], Constant (VInt 1)]) [] []"
  let ?good = "Compare (Call (Name ''max'' Load) [Name ''n'' Load, Name ''m'' Load] []) [Gt]
          [Constant (VInt 10)]"
  have h1: "\<exists>n \<in> set (subtree_nodes (Expression ?bad)). breaks_allowlist n"
    by code_simp
  have h2: "\<forall>n \<in> set (subtree_nodes (Expression ?good)). \<not> breaks_allowlist n"
    by code_simp
  have ev: "map_sum id truthy (py_eval (full_env (guard_none_comparisons
      [(''n'', VInt 5), (''m'', VInt 12)])) ?good) = Inr True"
    by code_simp
  from validation_all_or_nothing [of ?bad] h1
  have a: "\<exists>e. is_validation_error e \<and> (\<forall>env. safe_eval_tree ?bad env = Inl e)"
    by blast
  from validation_all_or_nothing [of ?good] h2
  have "safe_eval_tree ?good [(''n'', VInt 5), (''m'', VInt 12)] =
      map_sum id truthy (py_eval (full_env (guard_none_comparisons
      [(''n'', VInt 5), (''m'', VInt 12)])) ?good)"
    by blast
  with ev a show ?thesis by simp
qed

section \<open>Properties of evaluation\<close>

subsection \<open>Names the environment does not bind\<close>






subsection \<open>The names an evaluation looks up\<close>













subsection \<open>The trees of the texts evaluated below\<close>

lemma parse_examples:
  "ast_parse_fragment ''diameter_is_none'' = Inr (Name ''diameter_is_none'' Load)"
  "ast_parse_fragment ''secret_var > 0'' =
     Inr (Compare (Name ''secret_var'' Load) [Gt] [Constant (VInt 0)])"
  "ast_parse_fragment ''secret_var(1)'' =
     Inr (Call (Name ''secret_var'' Load) [Constant (VInt 1)] [])"
  "ast_parse_fragment ''diameter <= 3'' =
     Inr (Compare (Name ''diameter'' Load) [LtE] [Constant (VInt 3)])"
  "ast_parse_fragment ''True or diameter'' =
     Inr (BoolOp Or [Constant (VBool True), Name ''diameter'' Load])"
  "ast_parse_fragment ''implies(implies(n, m, is_connected))'' =
     Inr (Call (Name ''implies'' Load)
       [Call (Name ''implies'' Load)
          [Name ''n'' Load, Name ''m'' Load, Name ''is_connected'' Load] []] [])"
  "ast_parse_fragment ''3 >= diameter'' =
     Inr (Compare (Constant (VInt 3)) [GtE] [Name ''diameter'' Load])"
  "ast_parse_fragment ''abs(diameter) > 1'' =
     Inr (Compare (Call (Name ''abs'' Load) [Name ''diameter'' Load] []) [Gt]
       [Constant (VInt 1)])"
  by code_simp+

subsection \<open>The claims about names\<close>

text \<open>
  C4, as amended. If the tree holds a bare name outside the allowed names, then for
  every bindings map the call returns one and the same validation error: nothing is
  evaluated and the name is never read. The error is the \<open>DisallowedNameError\<close> of that
  name when the name is the first node in the order of the walk that breaks the
  allowlists, as in \<^verbatim>\<open>secret_var > 0\<close>; a node that breaks them earlier in the walk
  raises its own error instead.
\<close>

theorem name_soundness:
  "ExprNode (Name x c) \<in> set (subtree_nodes (Expression body)) \<and> x \<notin> ALLOWED_NAMES \<longrightarrow>
     (\<exists>e. is_validation_error e
        \<and> (\<forall>env. safe_eval_tree body env = Inl e)
        \<and> (\<forall>ast_parse expr env.
              (\<exists>expr'. rewrite_implies expr = Some expr' \<and> ast_parse expr' = Inr body)
              \<longrightarrow> safe_eval_expr ast_parse expr env = Some (Inl e))
        \<and> ((\<exists>pre post. ast_walk (Expression body) = pre @ ExprNode (Name x c) # post
               \<and> (\<forall>n \<in> set pre. \<not> breaks_allowlist n))
            \<longrightarrow> e = DisallowedNameError x))"
proof
  assume a: "ExprNode (Name x c) \<in> set (subtree_nodes (Expression body)) \<and> x \<notin> ALLOWED_NAMES"
  let ?n = "ExprNode (Name x c)"
  from a have n: "?n \<in> set (ast_walk (Expression body))" by (simp add: set_ast_walk)
  from a have b: "breaks_allowlist ?n"
    by (simp add: breaks_allowlist_def ALLOWED_NODES_def)
  from a have vn: "validate_node ?n = Inl (DisallowedNameError x)"
    by (simp add: validate_node_def ALLOWED_NODES_def)
  from validate_nodes_fails [OF n b] obtain e where
    e: "validate_nodes (ast_walk (Expression body)) = Inl e" by (elim exE)
  from validate_nodes_error [OF e] obtain m where "validate_node m = Inl e" by (elim bexE)
  then have v: "is_validation_error e" by (rule validate_node_error)
  have t: "\<forall>env. safe_eval_tree body env = Inl e"
    by (simp add: safe_eval_tree_rejected [OF e])
  have s: "\<forall>ast_parse expr env.
      (\<exists>expr'. rewrite_implies expr = Some expr' \<and> ast_parse expr' = Inr body)
      \<longrightarrow> safe_eval_expr ast_parse expr env = Some (Inl e)"
    using t by (auto simp: safe_eval_expr_tree)
  have f: "(\<exists>pre post. ast_walk (Expression body) = pre @ ?n # post
               \<and> (\<forall>n \<in> set pre. \<not> breaks_allowlist n))
            \<longrightarrow> e = DisallowedNameError x"
  proof
    assume "\<exists>pre post. ast_walk (Expression body) = pre @ ?n # post
               \<and> (\<forall>n \<in> set pre. \<not> breaks_allowlist n)"
    then obtain pre post where w: "ast_walk (Expression body) = pre @ ?n # post"
      and p: "\<forall>n \<in> set pre. \<not> breaks_allowlist n" by (elim exE conjE)
    from validate_nodes_first [OF p vn, of post] w e show "e = DisallowedNameError x" by simp
  qed
  from v t s f show "\<exists>e. is_validation_error e
        \<and> (\<forall>env. safe_eval_tree body env = Inl e)
        \<and> (\<forall>ast_parse expr env.
              (\<exists>expr'. rewrite_implies expr = Some expr' \<and> ast_parse expr' = Inr body)
              \<longrightarrow> safe_eval_expr ast_parse expr env = Some (Inl e))
        \<and> ((\<exists>pre post. ast_walk (Expression body) = pre @ ExprNode (Name x c) # post
               \<and> (\<forall>n \<in> set pre. \<not> breaks_allowlist n))
            \<longrightarrow> e = DisallowedNameError x)"
    by (intro exI [of _ e] conjI)
qed

text \<open>The witness: \<^verbatim>\<open>evaluate("secret_var > 0", {})\<close>.\<close>

theorem name_soundness_witness:
  "safe_eval_tree (Compare (Name ''secret_var'' Load) [Gt] [Constant (VInt 0)]) []
     = Inl (DisallowedNameError ''secret_var'')
   \<and> safe_eval_expr ast_parse_fragment ''secret_var > 0'' []
     = Some (Inl (DisallowedNameError ''secret_var''))"
proof -
  let ?body = "Compare (Name ''secret_var'' Load) [Gt] [Constant (VInt 0)]"
  let ?n = "ExprNode (Name ''secret_var'' Load)"
  have h: "?n \<in> set (subtree_nodes (Expression ?body)) \<and> ''secret_var'' \<notin> ALLOWED_NAMES"
    by code_simp
  have w: "ast_walk (Expression ?body) =
      [Expression ?body, ExprNode ?body] @ ?n # [CmpopNode Gt, ExprNode (Constant (VInt 0)),
        ContextNode Load]"
    by code_simp
  have p: "\<forall>n \<in> set [Expression ?body, ExprNode ?body]. \<not> breaks_allowlist n"
    by code_simp
  have r: "rewrite_implies ''secret_var > 0'' = Some ''secret_var > 0''" by code_simp
  from name_soundness [of "''secret_var''" Load ?body] h obtain e where
    e: "\<forall>env. safe_eval_tree ?body env = Inl e"
      "\<forall>ast_parse expr env.
         (\<exists>expr'. rewrite_implies expr = Some expr' \<and> ast_parse expr' = Inr ?body)
         \<longrightarrow> safe_eval_expr ast_parse expr env = Some (Inl e)"
      "(\<exists>pre post. ast_walk (Expression ?body) = pre @ ?n # post
               \<and> (\<forall>n \<in> set pre. \<not> breaks_allowlist n))
            \<longrightarrow> e = DisallowedNameError ''secret_var''"
    by blast
  from e(3) w p have "e = DisallowedNameError ''secret_var''" by blast
  with e(1) e(2) r parse_examples(2) show ?thesis by blast
qed

text \<open>
  C4 as stated fails: in \<^verbatim>\<open>secret_var(1)\<close> the name \<^verbatim>\<open>secret_var\<close> is a bare name of
  the tree outside the allowed names, and the error raised is the one of the call node,
  which the walk reaches before the name.
\<close>

theorem name_soundness_call_first:
  "ast_parse_fragment ''secret_var(1)''
     = Inr (Call (Name ''secret_var'' Load) [Constant (VInt 1)] [])
   \<and> ExprNode (Name ''secret_var'' Load)
       \<in> set (ast_walk (Expression (Call (Name ''secret_var'' Load) [Constant (VInt 1)] [])))
   \<and> ''secret_var'' \<notin> ALLOWED_NAMES
   \<and> safe_eval_expr ast_parse_fragment ''secret_var(1)'' [] = Some (Inl DisallowedCallError)
   \<and> DisallowedCallError \<noteq> DisallowedNameError ''secret_var''"
  by code_simp

text \<open>
  C1, on the code. The guarded environment of \<^verbatim>\<open>{"diameter": None}\<close> binds
  \<^verbatim>\<open>diameter_is_none\<close> to \<^verbatim>\<open>True\<close>, and the docstring of
  \<^verbatim>\<open>guard_none_comparisons\<close> promises explicit checks like \<^verbatim>\<open>diameter_is_none\<close>; but
  the name is not in \<^verbatim>\<open>ALLOWED_NAMES\<close>, so validation rejects the expression before
  the environment is consulted.
\<close>

theorem flag_name_rejected:
  "dict_get (full_env (guard_none_comparisons [(''diameter'', VNone)])) ''diameter_is_none''
     = Some (VBool True)
   \<and> ''diameter_is_none'' \<notin> ALLOWED_NAMES
   \<and> rewrite_implies ''diameter_is_none'' = Some ''diameter_is_none''
   \<and> ast_parse_fragment ''diameter_is_none'' = Inr (Name ''diameter_is_none'' Load)
   \<and> safe_eval_tree (Name ''diameter_is_none'' Load) [(''diameter'', VNone)]
       = Inl (DisallowedNameError ''diameter_is_none'')
   \<and> safe_eval_expr ast_parse_fragment ''diameter_is_none'' [(''diameter'', VNone)]
       = Some (Inl (DisallowedNameError ''diameter_is_none''))"
  by code_simp

subsection \<open>The claims about name lookup\<close>

text \<open>
  C6. The execution context is built from the allowed functions first and the guarded
  bindings after them, so a name bound in the guarded environment resolves to the value
  it has there, also when the name is a key of \<^verbatim>\<open>ALLOWED_FUNCS\<close>: the binding shadows
  the function. A name the guarded environment does not bind resolves as in
  \<^verbatim>\<open>ALLOWED_FUNCS\<close>.
\<close>

theorem binding_shadows_function:
  "full_env (guard_none_comparisons env) = dict_merge ALLOWED_FUNCS (guard_none_comparisons env)
   \<and> (distinct (dict_keys env) \<longrightarrow>
        (\<forall>x v. dict_get (guard_none_comparisons env) x = Some v \<longrightarrow>
             dict_get (full_env (guard_none_comparisons env)) x = Some v
           \<and> py_eval (full_env (guard_none_comparisons env)) (Name x Load) = Inr v
           \<and> (x \<in> set (dict_keys ALLOWED_FUNCS) \<longrightarrow>
                safe_eval_tree (Name x Load) env = Inr (truthy v)))
      \<and> (\<forall>x. dict_get (guard_none_comparisons env) x = None \<longrightarrow>
             dict_get (full_env (guard_none_comparisons env)) x = dict_get ALLOWED_FUNCS x))"
proof (intro conjI impI allI)
  show "full_env (guard_none_comparisons env) = dict_merge ALLOWED_FUNCS (guard_none_comparisons env)"
    by (simp add: full_env_def)
next
  fix x v
  assume d: "distinct (dict_keys env)"
    and g: "dict_get (guard_none_comparisons env) x = Some v"
  from full_env_get [OF guard_distinct [OF d], of x] g
  show fe: "dict_get (full_env (guard_none_comparisons env)) x = Some v" by simp
  then show ev: "py_eval (full_env (guard_none_comparisons env)) (Name x Load) = Inr v"
    by (simp add: lookup_name_def)
  assume f: "x \<in> set (dict_keys ALLOWED_FUNCS)"
  then have "x \<in> ALLOWED_NAMES" by (simp add: ALLOWED_NAMES_def)
  then have "validate_nodes (ast_walk (Expression (Name x Load))) = Inr ()"
    by (simp add: ast_walk_def validate_node_def ALLOWED_NODES_def)
  from safe_eval_tree_accepted [OF this, of env] ev
  show "safe_eval_tree (Name x Load) env = Inr (truthy v)" by simp
next
  fix x
  assume d: "distinct (dict_keys env)"
    and g: "dict_get (guard_none_comparisons env) x = None"
  from full_env_get [OF guard_distinct [OF d], of x] g
  show "dict_get (full_env (guard_none_comparisons env)) x = dict_get ALLOWED_FUNCS x" by simp
qed

text \<open>
  The witness: with the bindings \<^verbatim>\<open>{"abs": 0}\<close> the expression \<^verbatim>\<open>abs\<close> is the
  number 0, which is false, while the function it shadows would be true.
\<close>

theorem binding_shadows_function_witness:
  "dict_get ALLOWED_FUNCS ''abs'' = Some (VFunc F_abs)
   \<and> py_eval (full_env (guard_none_comparisons [(''abs'', VInt 0)])) (Name ''abs'' Load)
       = Inr (VInt 0)
   \<and> safe_eval_tree (Name ''abs'' Load) [(''abs'', VInt 0)] = Inr False
   \<and> dict_get (full_env (guard_none_comparisons [(''abs'', VInt 0)])) ''max''
       = Some (VFunc F_max)"
proof -
  let ?env = "[(''abs'', VInt 0)]"
  have d: "distinct (dict_keys ?env)" by simp
  have g: "dict_get (guard_none_comparisons ?env) ''abs'' = Some (VInt 0)"
    "dict_get (guard_none_comparisons ?env) ''max'' = None"
    by code_simp+
  have f: "''abs'' \<in> set (dict_keys ALLOWED_FUNCS)"
    "dict_get ALLOWED_FUNCS ''abs'' = Some (VFunc F_abs)"
    "dict_get ALLOWED_FUNCS ''max'' = Some (VFunc F_max)"
    by code_simp+
  let ?g = "guard_none_comparisons ?env"
  from binding_shadows_function [of ?env] d
  have s: "\<forall>x v. dict_get ?g x = Some v \<longrightarrow>
             dict_get (full_env ?g) x = Some v
           \<and> py_eval (full_env ?g) (Name x Load) = Inr v
           \<and> (x \<in> set (dict_keys ALLOWED_FUNCS) \<longrightarrow>
                safe_eval_tree (Name x Load) ?env = Inr (truthy v))"
    and n: "\<forall>x. dict_get ?g x = None \<longrightarrow> dict_get (full_env ?g) x = dict_get ALLOWED_FUNCS x"
    by blast+
  from s g(1) f(1) have "py_eval (full_env ?g) (Name ''abs'' Load) = Inr (VInt 0)"
    and "safe_eval_tree (Name ''abs'' Load) ?env = Inr (truthy (VInt 0))"
    by blast+
  moreover from n g(2) f(3) have "dict_get (full_env ?g) ''max'' = Some (VFunc F_max)"
    by simp
  ultimately show ?thesis using f(2) by simp
qed




end
